theory Spec2Isabelle
  imports Main "HOL-Library.AList"
begin

section \<open>Data model\<close>

text \<open>
  The program of \<^verbatim>\<open>run_analysis.py\<close> works on pandas tables. A table is modelled
  column by column, as pandas stores it: an association list from column names to
  columns, in column order. A column holds either date values or numbers.

  A timestamp is an integer count of nanoseconds since the epoch, the resolution of a
  pandas \<^verbatim>\<open>Timestamp\<close>; the bounds of its 64-bit range are not modelled. Numbers are
  integers: the rounding of floating-point addition is not modelled. A missing number
  (\<^verbatim>\<open>NaN\<close>) is \<open>None\<close>, a missing timestamp is \<open>NaT\<close>.

  A date value that is not yet a timestamp (a string of the JSON document, a cell of a
  table read from elsewhere) is \<open>Str r\<close>, where \<open>r\<close> is what \<^verbatim>\<open>pd.to_datetime\<close>
  makes of it: \<open>Some t\<close> when it parses to the timestamp \<open>t\<close>, \<open>None\<close> when it does
  not parse. The parser itself belongs to pandas and is not modelled.
\<close>

type_synonym timestamp = int

datatype date_val = Str "timestamp option" | Stamp timestamp | NaT

datatype column = Dates "date_val list" | Nums "int option list"

type_synonym frame = "(string \<times> column) list"

text \<open>
  Exceptions are values. \<open>RequestException\<close> stands for whatever \<^verbatim>\<open>requests.get\<close>
  raises on a transport error, \<open>KeyboardInterrupt\<close> for the exceptions that derive
  from \<^verbatim>\<open>BaseException\<close> only, which \<^verbatim>\<open>except Exception\<close> does not catch.
\<close>

datatype py_error = KeyError | TypeError | ValueError | RequestException | KeyboardInterrupt

fun is_Exception :: "py_error \<Rightarrow> bool" where
  "is_Exception KeyboardInterrupt = False"
| "is_Exception _ = True"

definition SIX_MONTH_DAYS :: int where
  "SIX_MONTH_DAYS = 182"

definition timedelta :: "int \<Rightarrow> int" where
  \<comment> \<open>\<^verbatim>\<open>timedelta(days=d)\<close>, in nanoseconds\<close>
  "timedelta days = days * 86400000000000"

fun col_len :: "column \<Rightarrow> nat" where
  "col_len (Dates ds) = length ds"
| "col_len (Nums vs) = length vs"

definition columns :: "frame \<Rightarrow> string list" where
  "columns df = map fst df"

definition nrows :: "frame \<Rightarrow> nat" where
  "nrows df = (case df of [] \<Rightarrow> 0 | (_, c) # _ \<Rightarrow> col_len c)"

definition df_empty :: "frame \<Rightarrow> bool" where
  \<comment> \<open>\<^verbatim>\<open>df.empty\<close>: some axis has length 0\<close>
  "df_empty df \<longleftrightarrow> columns df = [] \<or> nrows df = 0"

definition rect :: "frame \<Rightarrow> bool" where
  \<comment> \<open>all columns have one length, as in every pandas table\<close>
  "rect df \<longleftrightarrow> (\<forall>c \<in> snd ` set df. col_len c = nrows df)"

definition wf_frame :: "frame \<Rightarrow> bool" where
  \<comment> \<open>the tables this program builds: distinct column names, columns of one length\<close>
  "wf_frame df \<longleftrightarrow> distinct (columns df) \<and> rect df"

text \<open>Rows, to state what a table holds: row \<open>i\<close> pairs each column name with its cell.\<close>

datatype cell = D date_val | N "int option"

fun cell_at :: "column \<Rightarrow> nat \<Rightarrow> cell" where
  "cell_at (Dates ds) i = D (ds ! i)"
| "cell_at (Nums vs) i = N (vs ! i)"

definition row :: "frame \<Rightarrow> nat \<Rightarrow> (string \<times> cell) list" where
  "row df i = map (\<lambda>(n, c). (n, cell_at c i)) df"

definition rows :: "frame \<Rightarrow> (string \<times> cell) list list" where
  "rows df = map (row df) [0..<nrows df]"


section \<open>The rolling-window trim\<close>

fun coerce :: "date_val \<Rightarrow> date_val" where
  "coerce (Str (Some t)) = Stamp t"
| "coerce (Str None) = NaT"
| "coerce (Stamp t) = Stamp t"
| "coerce NaT = NaT"

fun to_datetime_coerce :: "column \<Rightarrow> date_val list" where
  \<comment> \<open>\<^verbatim>\<open>pd.to_datetime(col, errors="coerce")\<close>; a number is read as nanoseconds\<close>
  "to_datetime_coerce (Dates ds) = map coerce ds"
| "to_datetime_coerce (Nums vs) = map (\<lambda>v. case v of None \<Rightarrow> NaT | Some n \<Rightarrow> Stamp n) vs"

fun stamp_of :: "date_val \<Rightarrow> timestamp option" where
  "stamp_of (Stamp t) = Some t"
| "stamp_of _ = None"

fun max_dt :: "date_val list \<Rightarrow> timestamp option" where
  \<comment> \<open>\<^verbatim>\<open>Series.max()\<close> of a datetime column: missing values are skipped, and the
      result is missing when nothing is left\<close>
  "max_dt [] = None"
| "max_dt (d # ds) =
     (case stamp_of d of
        None \<Rightarrow> max_dt ds
      | Some t \<Rightarrow> (case max_dt ds of None \<Rightarrow> Some t | Some m \<Rightarrow> Some (max t m)))"

fun ge_cutoff :: "timestamp \<Rightarrow> date_val \<Rightarrow> bool" where
  \<comment> \<open>one cell of \<^verbatim>\<open>df[date_col] >= cutoff\<close>: a missing timestamp compares false\<close>
  "ge_cutoff cutoff (Stamp t) = (cutoff \<le> t)"
| "ge_cutoff cutoff _ = False"

definition pick :: "'a list \<Rightarrow> bool list \<Rightarrow> 'a list" where
  \<comment> \<open>boolean-mask indexing of one column\<close>
  "pick xs keep = map fst (filter snd (zip xs keep))"

fun select_col :: "bool list \<Rightarrow> column \<Rightarrow> column" where
  "select_col keep (Dates ds) = Dates (pick ds keep)"
| "select_col keep (Nums vs) = Nums (pick vs keep)"

definition select_rows :: "frame \<Rightarrow> bool list \<Rightarrow> frame" where
  \<comment> \<open>\<^verbatim>\<open>df[mask]\<close>\<close>
  "select_rows df keep = map (\<lambda>(n, c). (n, select_col keep c)) df"

definition limit_to_last_6_months :: "frame \<Rightarrow> string \<Rightarrow> frame" where
  \<comment> \<open>\<^verbatim>\<open>_limit_to_last_6_months(df, date_col)\<close>, lines 16 to 36\<close>
  "limit_to_last_6_months df date_col =
     (if df_empty df then df
      else case map_of df date_col of
        None \<Rightarrow> df
      | Some col \<Rightarrow>
          let ds = to_datetime_coerce col;
              df' = AList.update date_col (Dates ds) df
          in (case max_dt ds of
                None \<Rightarrow> df'
              | Some m \<Rightarrow>
                  let cutoff = m - timedelta SIX_MONTH_DAYS
                  in select_rows df' (map (ge_cutoff cutoff) ds)))"

definition in_window :: "timestamp \<Rightarrow> string \<Rightarrow> (string \<times> cell) list \<Rightarrow> bool" where
  \<comment> \<open>the row's timestamp lies in the 182 days up to \<open>T\<close>, both ends included\<close>
  "in_window T date_col r \<longleftrightarrow>
     (case map_of r date_col of
        Some (D (Stamp t)) \<Rightarrow> T - 182 * 86400000000000 \<le> t \<and> t \<le> T
      | _ \<Rightarrow> False)"


section \<open>The retrying fetcher\<close>

text \<open>
  A raw record is one object of the JSON array: its field \<^verbatim>\<open>ltu\<close> is absent (\<open>None\<close>) or
  a date value, its field \<^verbatim>\<open>value\<close> is absent or a number or null. Other fields play no
  part.

  The network is a parameter: for the request of a category, a dataset and a date range,
  it gives the outcome of the attempt of each iteration: an HTTP response, with its status
  code and what \<^verbatim>\<open>response.json()\<close> makes of its body (\<open>None\<close> when that raises), or
  an exception raised by \<^verbatim>\<open>requests.get\<close>. What the program prints and how long it
  sleeps is recorded in a trace.
\<close>

record raw_record =
  ltu :: "date_val option"
  val :: "int option option"

type_synonym json = "raw_record list"

datatype outcome = Response nat "json option" | Raised py_error

datatype event = Request | Printed nat | Slept nat

type_synonym network = "string \<Rightarrow> string \<Rightarrow> string \<Rightarrow> string \<Rightarrow> nat \<Rightarrow> outcome"

fun attempts :: "(nat \<Rightarrow> outcome) \<Rightarrow> nat list \<Rightarrow> event list \<Rightarrow> (py_error + json) \<times> event list" where
  \<comment> \<open>the loop of lines 54 to 64 over the attempt numbers still to run\<close>
  "attempts get [] trace = (Inr [], trace)"
| "attempts get (attempt # rest) trace =
     (case get attempt of
        Response status_code body \<Rightarrow>
          if status_code = 200 then
            (case body of
               Some data \<Rightarrow> (Inr data, trace @ [Request])
             | None \<Rightarrow> attempts get rest (trace @ [Request, Printed (attempt + 1), Slept 5]))
          else attempts get rest (trace @ [Request, Printed (attempt + 1), Slept 5])
      | Raised e \<Rightarrow>
          if is_Exception e
          then attempts get rest (trace @ [Request, Printed (attempt + 1), Slept 5])
          else (Inl e, trace @ [Request]))"

definition fetch_dataset ::
  "network \<Rightarrow> string \<Rightarrow> string \<Rightarrow> string \<Rightarrow> string \<Rightarrow> (py_error + json) \<times> event list" where
  "fetch_dataset net category dataset_id start_date end_date =
     attempts (net category dataset_id start_date end_date) [0..<3] []"

definition attempt_fails :: "outcome \<Rightarrow> bool" where
  \<comment> \<open>a status other than 200, a body that is not JSON, or an exception of \<^verbatim>\<open>requests.get\<close>\<close>
  "attempt_fails out \<longleftrightarrow>
     (case out of
        Response status_code body \<Rightarrow> status_code \<noteq> 200 \<or> body = None
      | Raised e \<Rightarrow> is_Exception e)"


section \<open>Normalizing one series\<close>

text \<open>
  A normalized series is the one-column table of line 102: its index, the timestamps
  (\<open>None\<close> for a missing one), paired with its values, under the series' name.
\<close>

record series =
  name :: string
  entries :: "(timestamp option \<times> int option) list"

definition ltu_cell :: "raw_record \<Rightarrow> date_val" where
  \<comment> \<open>the cell of column \<^verbatim>\<open>ltu\<close> that \<^verbatim>\<open>pd.DataFrame(data)\<close> builds: missing where the
      record has no such field\<close>
  "ltu_cell r = (case ltu r of None \<Rightarrow> NaT | Some d \<Rightarrow> d)"

definition val_cell :: "raw_record \<Rightarrow> int option" where
  "val_cell r = (case val r of None \<Rightarrow> None | Some v \<Rightarrow> v)"

fun to_datetime :: "date_val list \<Rightarrow> py_error + timestamp option list" where
  \<comment> \<open>\<^verbatim>\<open>pd.to_datetime(col)\<close>: a value that does not parse raises\<close>
  "to_datetime [] = Inr []"
| "to_datetime (d # ds) =
     (if d = Str None then Inl ValueError
      else case to_datetime ds of
             Inl e \<Rightarrow> Inl e
           | Inr ts \<Rightarrow> Inr (stamp_of (coerce d) # ts))"

fun drop_dups :: "'k list \<Rightarrow> ('k \<times> 'v) list \<Rightarrow> ('k \<times> 'v) list" where
  \<comment> \<open>one pass over the rows with the keys seen so far: a row whose key was seen is dropped\<close>
  "drop_dups seen [] = []"
| "drop_dups seen (e # es) =
     (if fst e \<in> set seen then drop_dups seen es else e # drop_dups (fst e # seen) es)"

definition drop_duplicates :: "('k \<times> 'v) list \<Rightarrow> ('k \<times> 'v) list" where
  \<comment> \<open>\<^verbatim>\<open>df.drop_duplicates(subset="data")\<close>, with its default \<^verbatim>\<open>keep="first"\<close>\<close>
  "drop_duplicates es = drop_dups [] es"

definition normalize :: "string \<Rightarrow> json \<Rightarrow> py_error + series option" where
  \<comment> \<open>lines 97 to 108; \<open>None\<close> when the series is skipped\<close>
  "normalize nm data =
     (if data = [] then Inr None
      else if list_ex (\<lambda>r. ltu r \<noteq> None) data \<and> list_ex (\<lambda>r. val r \<noteq> None) data then
        (case to_datetime (map ltu_cell data) of
           Inl e \<Rightarrow> Inl e
         | Inr ts \<Rightarrow>
             Inr (Some \<lparr>name = nm, entries = drop_duplicates (zip ts (map val_cell data))\<rparr>))
      else Inr None)"

definition date_of_key :: "timestamp option \<Rightarrow> date_val" where
  "date_of_key k = (case k of None \<Rightarrow> NaT | Some t \<Rightarrow> Stamp t)"

definition records_of :: "series \<Rightarrow> json" where
  \<comment> \<open>a normalized series read back as raw records, to normalize it again\<close>
  "records_of s = map (\<lambda>(k, v). \<lparr>ltu = Some (date_of_key k), val = Some v\<rparr>) (entries s)"


section \<open>Merging the series\<close>

definition union_index :: "series list \<Rightarrow> timestamp option list" where
  "union_index all_dfs = remdups (concat (map (\<lambda>s. map fst (entries s)) all_dfs))"

definition sort_index :: "timestamp option list \<Rightarrow> timestamp option list" where
  \<comment> \<open>ascending, a missing timestamp last\<close>
  "sort_index ks = map Some (sort (map the (filter (\<lambda>k. k \<noteq> None) ks))) @ filter (\<lambda>k. k = None) ks"

definition reindex :: "series \<Rightarrow> timestamp option list \<Rightarrow> int option list" where
  \<comment> \<open>the values of a series along another index: missing where it has no entry\<close>
  "reindex s ks = map (\<lambda>k. case map_of (entries s) k of None \<Rightarrow> None | Some v \<Rightarrow> v) ks"

definition merge_frames :: "series list \<Rightarrow> py_error + frame" where
  \<comment> \<open>line 115: \<^verbatim>\<open>pd.concat(all_dfs, axis=1, join="outer").sort_index().reset_index()\<close>;
      \<^verbatim>\<open>pd.concat\<close> raises on an empty list\<close>
  "merge_frames all_dfs =
     (if all_dfs = [] then Inl ValueError
      else let ks = sort_index (union_index all_dfs)
           in Inr ((''data'', Dates (map date_of_key ks)) #
                   map (\<lambda>s. (name s, Nums (reindex s ks))) all_dfs))"

definition datasets :: "(string \<times> string) list" where
  "datasets =
     [(''101'', ''Kaupimo''), (''102'', ''Saules''), (''103'', ''Kitu''), (''104'', ''Siluminiu''),
      (''105'', ''Hidro''), (''106'', ''Vejo''), (''203'', ''Vartojimas'')]"

fun fetch_loop ::
  "network \<Rightarrow> string \<Rightarrow> string \<Rightarrow> (string \<times> string) list \<Rightarrow> series list \<Rightarrow> py_error + series list" where
  \<comment> \<open>the loop of lines 92 to 110; an exception that nothing catches ends it. What the
      loop prints, and its pause of one second after each series, are left out\<close>
  "fetch_loop net start_date end_date [] all_dfs = Inr all_dfs"
| "fetch_loop net start_date end_date ((ds_id, nm) # rest) all_dfs =
     (let cat = (if take 1 ds_id = ''1'' then ''gamyba'' else ''vartojimas'')
      in case fst (fetch_dataset net cat ds_id start_date end_date) of
           Inl e \<Rightarrow> Inl e
         | Inr data \<Rightarrow>
             (case normalize nm data of
                Inl e \<Rightarrow> Inl e
              | Inr None \<Rightarrow> fetch_loop net start_date end_date rest all_dfs
              | Inr (Some df) \<Rightarrow> fetch_loop net start_date end_date rest (all_dfs @ [df])))"

definition fetch_all_data :: "network \<Rightarrow> string \<Rightarrow> string \<Rightarrow> py_error + frame" where
  \<comment> \<open>lines 67 to 117; \<open>start_date\<close> and \<open>end_date\<close> are the two strings of lines 76 and 77\<close>
  "fetch_all_data net start_date end_date =
     (case fetch_loop net start_date end_date datasets [] of
        Inl e \<Rightarrow> Inl e
      | Inr all_dfs \<Rightarrow>
          if all_dfs = [] then Inr []
          else (case merge_frames all_dfs of
                  Inl e \<Rightarrow> Inl e
                | Inr final_df \<Rightarrow> Inr (limit_to_last_6_months final_df ''data'')))"


section \<open>Processing\<close>

definition sources :: "string list" where
  "sources = [''Kaupimo'', ''Saules'', ''Kitu'', ''Siluminiu'', ''Hidro'', ''Vejo'']"

fun getitems :: "frame \<Rightarrow> string list \<Rightarrow> py_error + frame" where
  \<comment> \<open>\<^verbatim>\<open>df[names]\<close>: raises \<^verbatim>\<open>KeyError\<close> when a name is not a column\<close>
  "getitems df [] = Inr []"
| "getitems df (k # ks) =
     (case map_of df k of
        None \<Rightarrow> Inl KeyError
      | Some c \<Rightarrow> (case getitems df ks of Inl e \<Rightarrow> Inl e | Inr sub \<Rightarrow> Inr ((k, c) # sub)))"

fun numeric :: "frame \<Rightarrow> py_error + (string \<times> int option list) list" where
  \<comment> \<open>the columns as numbers; a date column in their place raises \<^verbatim>\<open>TypeError\<close>\<close>
  "numeric [] = Inr []"
| "numeric ((k, Nums vs) # sub) =
     (case numeric sub of Inl e \<Rightarrow> Inl e | Inr cols \<Rightarrow> Inr ((k, vs) # cols))"
| "numeric ((k, Dates ds) # sub) = Inl TypeError"

definition fillna :: "int \<Rightarrow> int option list \<Rightarrow> int option list" where
  "fillna x vs = map (\<lambda>v. case v of None \<Rightarrow> Some x | Some y \<Rightarrow> Some y) vs"

fun ffill_from :: "int option \<Rightarrow> int option list \<Rightarrow> int option list" where
  "ffill_from prev [] = []"
| "ffill_from prev (None # vs) = prev # ffill_from prev vs"
| "ffill_from prev (Some x # vs) = Some x # ffill_from (Some x) vs"

definition ffill :: "int option list \<Rightarrow> int option list" where
  "ffill vs = ffill_from None vs"

definition setitems :: "frame \<Rightarrow> (string \<times> int option list) list \<Rightarrow> frame" where
  \<comment> \<open>\<^verbatim>\<open>df[names] = cols\<close>, one column after the other\<close>
  "setitems df cols = fold (\<lambda>(k, vs) d. AList.update k (Nums vs) d) cols df"

definition add_col :: "int list \<Rightarrow> int option list \<Rightarrow> int list" where
  \<comment> \<open>a missing value adds nothing (\<^verbatim>\<open>skipna\<close>)\<close>
  "add_col acc vs = map (\<lambda>(a, v). a + (case v of None \<Rightarrow> 0 | Some x \<Rightarrow> x)) (zip acc vs)"

definition sum_axis1 :: "nat \<Rightarrow> (string \<times> int option list) list \<Rightarrow> int option list" where
  \<comment> \<open>\<^verbatim>\<open>sub.sum(axis=1)\<close> of a table of \<open>n\<close> rows\<close>
  "sum_axis1 n cols = map Some (foldl add_col (replicate n 0) (map snd cols))"

definition sub_col :: "int option list \<Rightarrow> int option list \<Rightarrow> int option list" where
  "sub_col xs ys =
     map (\<lambda>(x, y). case x of None \<Rightarrow> None
                    | Some a \<Rightarrow> (case y of None \<Rightarrow> None | Some b \<Rightarrow> Some (a - b))) (zip xs ys)"

definition getnums :: "frame \<Rightarrow> string \<Rightarrow> py_error + int option list" where
  \<comment> \<open>\<^verbatim>\<open>df[name]\<close>, used as numbers\<close>
  "getnums df k =
     (case map_of df k of
        None \<Rightarrow> Inl KeyError
      | Some (Nums vs) \<Rightarrow> Inr vs
      | Some (Dates ds) \<Rightarrow> Inl TypeError)"

definition fill_sources :: "frame \<Rightarrow> py_error + frame" where
  \<comment> \<open>line 136\<close>
  "fill_sources df =
     (case getitems df sources of
        Inl e \<Rightarrow> Inl e
      | Inr sub \<Rightarrow>
          (case numeric sub of
             Inl e \<Rightarrow> Inl e
           | Inr cols \<Rightarrow> Inr (setitems df (map (\<lambda>(k, vs). (k, fillna 0 vs)) cols))))"

definition fill_consumption :: "frame \<Rightarrow> py_error + frame" where
  \<comment> \<open>line 137\<close>
  "fill_consumption df =
     (case getnums df ''Vartojimas'' of
        Inl e \<Rightarrow> Inl e
      | Inr vs \<Rightarrow> Inr (AList.update ''Vartojimas'' (Nums (ffill vs)) df))"

definition add_total :: "frame \<Rightarrow> py_error + frame" where
  \<comment> \<open>line 139\<close>
  "add_total df =
     (case getitems df sources of
        Inl e \<Rightarrow> Inl e
      | Inr sub \<Rightarrow>
          (case numeric sub of
             Inl e \<Rightarrow> Inl e
           | Inr cols \<Rightarrow>
               Inr (AList.update ''Sumine_Generacija'' (Nums (sum_axis1 (nrows df) cols)) df)))"

definition add_imbalance :: "frame \<Rightarrow> py_error + frame" where
  \<comment> \<open>line 140\<close>
  "add_imbalance df =
     (case getnums df ''Sumine_Generacija'' of
        Inl e \<Rightarrow> Inl e
      | Inr gen \<Rightarrow>
          (case getnums df ''Vartojimas'' of
             Inl e \<Rightarrow> Inl e
           | Inr cons \<Rightarrow> Inr (AList.update ''Disbalansas'' (Nums (sub_col gen cons)) df)))"

definition process_data :: "frame \<Rightarrow> py_error + frame" where
  \<comment> \<open>lines 120 to 142\<close>
  "process_data df =
     (if df_empty df then Inr df
      else case fill_sources (limit_to_last_6_months df ''data'') of
             Inl e \<Rightarrow> Inl e
           | Inr df1 \<Rightarrow>
               (case fill_consumption df1 of
                  Inl e \<Rightarrow> Inl e
                | Inr df2 \<Rightarrow>
                    (case add_total df2 of
                       Inl e \<Rightarrow> Inl e
                     | Inr df3 \<Rightarrow> add_imbalance df3)))"

definition main :: "network \<Rightarrow> string \<Rightarrow> string \<Rightarrow> py_error + frame" where
  \<comment> \<open>lines 294 to 307, up to the processed table; writing the files is left out\<close>
  "main net start_date end_date =
     (case fetch_all_data net start_date end_date of
        Inl e \<Rightarrow> Inl e
      | Inr df \<Rightarrow> if \<not> df_empty df then process_data df else Inr df)"


section \<open>Vocabulary of the statements and example inputs\<close>

text \<open>
  Observations on tables and series in which the theorems below are stated, and the
  concrete tables and networks on which they are instantiated.
\<close>

definition day :: "int \<Rightarrow> timestamp" where
  \<comment> \<open>midnight of day \<open>n\<close>, in nanoseconds\<close>
  "day n = n * 86400000000000"

definition trim_example :: frame where
  "trim_example =
     [(''data'', Dates [Str None, Stamp (day 200), Str (Some (day 18)), Str (Some (day 17)), Stamp (day 100)]),
      (''Hidro'', Nums [Some 1, None, Some 3, Some 4, Some 5])]"

definition unparseable_example :: frame where
  "unparseable_example = [(''data'', Dates [Str None, Str None]), (''Hidro'', Nums [Some 1, None])]"

definition failing_net :: network where
  "failing_net category dataset_id start_date end_date k =
     (if k = 0 then Response 503 None
      else if k = 1 then Raised RequestException
      else Response 404 (Some []))"

definition parsed_rows :: "json \<Rightarrow> (timestamp option \<times> int option) list" where
  \<comment> \<open>the rows of the table of lines 100 and 101, in the order of the raw list\<close>
  "parsed_rows data = zip (map (\<lambda>r. stamp_of (coerce (ltu_cell r))) data) (map val_cell data)"

definition rec :: "int \<Rightarrow> int \<Rightarrow> raw_record" where
  \<comment> \<open>a record of day \<open>d\<close> with value \<open>v\<close>\<close>
  "rec d v = \<lparr>ltu = Some (Str (Some (day d))), val = Some (Some v)\<rparr>"

definition dup_example :: json where
  "dup_example = [rec 1 10, rec 2 5, rec 1 7, rec 2 9, rec 3 4]"

definition key_less :: "timestamp option \<Rightarrow> timestamp option \<Rightarrow> bool" where
  \<comment> \<open>the order of the rows: timestamps ascending, a missing timestamp after all others\<close>
  "key_less a b =
     (case a of
        None \<Rightarrow> False
      | Some x \<Rightarrow> (case b of None \<Rightarrow> True | Some y \<Rightarrow> x < y))"

definition series_A :: series where
  "series_A = \<lparr>name = ''Saules'', entries = [(Some (day 2), Some 2), (Some (day 1), Some 1)]\<rparr>"

definition series_B :: series where
  "series_B = \<lparr>name = ''Vejo'', entries = [(Some (day 2), Some 20), (Some (day 3), Some 30)]\<rparr>"

definition nums_of :: "frame \<Rightarrow> string \<Rightarrow> int option list" where
  \<comment> \<open>the values of a numeric column\<close>
  "nums_of df k = (case map_of df k of Some (Nums vs) \<Rightarrow> vs | _ \<Rightarrow> [])"

definition is_nums :: "frame \<Rightarrow> string \<Rightarrow> bool" where
  \<comment> \<open>the table has the column, and it is numeric\<close>
  "is_nums df k = (case map_of df k of Some (Nums vs) \<Rightarrow> True | _ \<Rightarrow> False)"

definition processed :: "frame \<Rightarrow> frame" where
  \<comment> \<open>lines 136 to 140 in a row, for a table that has the seven columns\<close>
  "processed t =
     (let filled = map (\<lambda>k. (k, fillna 0 (nums_of t k))) sources;
          cons = ffill (nums_of t ''Vartojimas'');
          df1 = setitems t filled;
          df2 = AList.update ''Vartojimas'' (Nums cons) df1;
          gen = sum_axis1 (nrows df2) filled;
          df3 = AList.update ''Sumine_Generacija'' (Nums gen) df2
      in AList.update ''Disbalansas'' (Nums (sub_col gen cons)) df3)"


definition full_example :: frame where
  "full_example =
     [(''data'', Dates [Stamp (day 1), Stamp (day 2), Stamp (day 3)]),
      (''Kaupimo'', Nums [None, Some 1, None]),
      (''Saules'', Nums [Some 10, None, Some 30]),
      (''Kitu'', Nums [None, None, None]),
      (''Siluminiu'', Nums [None, None, None]),
      (''Hidro'', Nums [None, None, None]),
      (''Vejo'', Nums [None, None, None]),
      (''Vartojimas'', Nums [None, Some 6, None])]"

definition scenario_net :: network where
  \<comment> \<open>two series answer: 102 (Saules) and 203 (Vartojimas); the others have no records\<close>
  "scenario_net category dataset_id start_date end_date k =
     (if dataset_id = ''102'' then Response 200 (Some [rec 1 10, rec 3 30])
      else if dataset_id = ''203'' then Response 200 (Some [rec 1 5, rec 2 6, rec 3 7])
      else Response 200 (Some []))"

definition partial_net :: network where
  \<comment> \<open>every request for 106 (Vejo) fails; the other series have one record each\<close>
  "partial_net category dataset_id start_date end_date k =
     (if dataset_id = ''106'' then Response 500 None
      else Response 200 (Some [rec 1 5]))"


section \<open>Properties of the rolling-window trim\<close>

lemma coerce_idem [simp]: "coerce (coerce d) = coerce d"
  by (cases d rule: coerce.cases) auto

lemma coerce_again [simp]: "to_datetime_coerce (Dates (to_datetime_coerce c)) = to_datetime_coerce c"
  by (cases c) (auto split: option.splits)

lemma coerce_no_Str: "d \<in> set (to_datetime_coerce c) \<Longrightarrow> d = NaT \<or> (\<exists>t. d = Stamp t)"
proof (cases c)
  case (Dates ds)
  assume "d \<in> set (to_datetime_coerce c)"
  then obtain e where "d = coerce e" using Dates by auto
  then show ?thesis by (cases e rule: coerce.cases) auto
next
  case (Nums vs)
  assume "d \<in> set (to_datetime_coerce c)"
  then show ?thesis using Nums by (auto split: option.splits)
qed

lemma max_dt_None: "max_dt ds = None \<longleftrightarrow> (\<forall>t. Stamp t \<notin> set ds)"
proof (induction ds)
  case Nil show ?case by simp
next
  case (Cons d ds)
  show ?case using Cons by (cases d) (auto split: option.splits)
qed

lemma max_dt_Some:
  "max_dt ds = Some m \<Longrightarrow> Stamp m \<in> set ds \<and> (\<forall>t. Stamp t \<in> set ds \<longrightarrow> t \<le> m)"
proof (induction ds arbitrary: m)
  case Nil then show ?case by simp
next
  case (Cons d ds)
  show ?case
  proof (cases d)
    case (Stamp t)
    show ?thesis
    proof (cases "max_dt ds")
      case None
      with Cons.prems Stamp have "m = t" by simp
      moreover from None have "\<forall>u. Stamp u \<notin> set ds" by (simp add: max_dt_None)
      ultimately show ?thesis using Stamp by auto
    next
      case (Some k)
      with Cons.prems Stamp have m: "m = max t k" by simp
      from Cons.IH [OF Some] have "Stamp k \<in> set ds" "\<forall>u. Stamp u \<in> set ds \<longrightarrow> u \<le> k" by auto
      then show ?thesis using m Stamp by (auto simp: max_def)
    qed
  qed (use Cons in auto)
qed

lemma max_dt_eqI:
  "Stamp m \<in> set ds \<Longrightarrow> \<forall>t. Stamp t \<in> set ds \<longrightarrow> t \<le> m \<Longrightarrow> max_dt ds = Some m"
proof -
  assume a: "Stamp m \<in> set ds" and b: "\<forall>t. Stamp t \<in> set ds \<longrightarrow> t \<le> m"
  from a have "max_dt ds \<noteq> None" by (auto simp: max_dt_None)
  then obtain k where k: "max_dt ds = Some k" by auto
  from max_dt_Some [OF k] a b have "k = m" by (meson order_antisym)
  with k show ?thesis by simp
qed

lemma pick_map: "pick xs (map P xs) = filter P xs"
  unfolding pick_def by (induction xs) auto

lemma length_pick: "length (pick xs keep) \<le> length (filter (\<lambda>b. b) keep)"
  unfolding pick_def
proof (induction xs arbitrary: keep)
  case Nil show ?case by simp
next
  case (Cons x xs)
  show ?case using Cons [of "tl keep"] by (cases keep) (auto simp: le_SucI)
qed

lemma pick_all: "length xs \<le> n \<Longrightarrow> pick xs (replicate n True) = xs"
  unfolding pick_def
proof (induction xs arbitrary: n)
  case Nil show ?case by simp
next
  case (Cons x xs)
  then show ?case by (cases n) auto
qed

lemma map_of_select_rows:
  "map_of (select_rows df keep) k = map_option (select_col keep) (map_of df k)"
  unfolding select_rows_def by (induction df) auto

lemma columns_select_rows [simp]: "columns (select_rows df keep) = columns df"
  unfolding select_rows_def columns_def by (induction df) auto

lemma col_len_select: "col_len (select_col keep c) \<le> length (filter (\<lambda>b. b) keep)"
  by (cases c) (simp_all add: length_pick)

lemma select_col_all: "col_len c \<le> n \<Longrightarrow> select_col (replicate n True) c = c"
  by (cases c) (simp_all add: pick_all)

lemma select_rows_all:
  "\<forall>c \<in> snd ` set df. col_len c \<le> n \<Longrightarrow> select_rows df (replicate n True) = df"
  unfolding select_rows_def by (induction df) (auto simp: select_col_all)

lemma select_rows_twice:
  "select_rows (select_rows df keep) (replicate (length (filter (\<lambda>b. b) keep)) True) = select_rows df keep"
proof (rule select_rows_all)
  show "\<forall>c \<in> snd ` set (select_rows df keep). col_len c \<le> length (filter (\<lambda>b. b) keep)"
    unfolding select_rows_def by (auto simp: col_len_select)
qed

lemma limit_fixpoint:
  assumes "map_of df dc = Some (Dates ds)" and "to_datetime_coerce (Dates ds) = ds"
    and "max_dt ds = None \<or> (\<exists>m. max_dt ds = Some m \<and> (\<forall>d \<in> set ds. ge_cutoff (m - timedelta SIX_MONTH_DAYS) d))"
    and "\<forall>c \<in> snd ` set df. col_len c \<le> length ds"
  shows "limit_to_last_6_months df dc = df"
proof -
  have u: "AList.update dc (Dates ds) df = df"
    using assms(1) by (rule AList.update_triv)
  show ?thesis
  proof (cases "df_empty df")
    case True then show ?thesis by (simp add: limit_to_last_6_months_def)
  next
    case False
    from assms(3) show ?thesis
    proof
      assume "max_dt ds = None"
      then show ?thesis using False assms(1,2) u
        by (simp add: limit_to_last_6_months_def del: to_datetime_coerce.simps)
    next
      assume "\<exists>m. max_dt ds = Some m \<and> (\<forall>d \<in> set ds. ge_cutoff (m - timedelta SIX_MONTH_DAYS) d)"
      then obtain m where m: "max_dt ds = Some m"
        and all: "\<forall>d \<in> set ds. ge_cutoff (m - timedelta SIX_MONTH_DAYS) d" by blast
      from all have "map (ge_cutoff (m - timedelta SIX_MONTH_DAYS)) ds = replicate (length ds) True"
        by (induction ds) auto
      then show ?thesis using False assms(1,2,4) u m
        by (simp add: limit_to_last_6_months_def select_rows_all del: to_datetime_coerce.simps)
    qed
  qed
qed

text \<open>
  Claim C9. The rolling-window trim is idempotent: for every table and every date column
  name, trimming the trimmed table gives the trimmed table again.
\<close>

theorem trim_idempotent: "limit_to_last_6_months (limit_to_last_6_months df dc) dc = limit_to_last_6_months df dc"
proof (cases "df_empty df \<or> map_of df dc = None")
  case True
  then show ?thesis by (auto simp: limit_to_last_6_months_def)
next
  case False
  then obtain col where col: "map_of df dc = Some col" and ne: "\<not> df_empty df" by auto
  define ds where "ds = to_datetime_coerce col"
  define df' where "df' = AList.update dc (Dates ds) df"
  have df': "map_of df' dc = Some (Dates ds)" by (simp add: df'_def AList.update_conv')
  have co: "to_datetime_coerce (Dates ds) = ds" unfolding ds_def by (rule coerce_again)
  show ?thesis
  proof (cases "max_dt ds")
    case None
    then have r: "limit_to_last_6_months df dc = df'"
      using col ne by (simp add: limit_to_last_6_months_def ds_def df'_def)
    have "limit_to_last_6_months df' dc = df'"
    proof (cases "df_empty df'")
      case True then show ?thesis by (simp add: limit_to_last_6_months_def)
    next
      case False
      have "AList.update dc (Dates ds) df' = df'" using df' by (rule AList.update_triv)
      then show ?thesis using False df' co None
        by (simp add: limit_to_last_6_months_def del: to_datetime_coerce.simps)
    qed
    with r show ?thesis by simp
  next
    case (Some m)
    define cutoff where "cutoff = m - timedelta SIX_MONTH_DAYS"
    define keep where "keep = map (ge_cutoff cutoff) ds"
    define ds2 where "ds2 = filter (ge_cutoff cutoff) ds"
    have r: "limit_to_last_6_months df dc = select_rows df' keep"
      using col ne Some
      by (simp add: limit_to_last_6_months_def ds_def df'_def keep_def cutoff_def Let_def)
    have len: "length (filter (\<lambda>b. b) keep) = length ds2"
      by (simp add: keep_def ds2_def filter_map comp_def)
    have d2: "map_of (select_rows df' keep) dc = Some (Dates ds2)"
      by (simp add: map_of_select_rows df' keep_def ds2_def pick_map)
    have stamps: "\<forall>d \<in> set ds2. \<exists>t. d = Stamp t \<and> cutoff \<le> t"
    proof
      fix d assume "d \<in> set ds2"
      then have "ge_cutoff cutoff d" by (simp add: ds2_def)
      then show "\<exists>t. d = Stamp t \<and> cutoff \<le> t" by (cases d) auto
    qed
    have co2: "to_datetime_coerce (Dates ds2) = ds2"
      using stamps by (auto intro!: map_idI)
    from max_dt_Some [OF Some] have mm: "Stamp m \<in> set ds" "\<forall>t. Stamp t \<in> set ds \<longrightarrow> t \<le> m" by auto
    have "timedelta SIX_MONTH_DAYS \<ge> 0" by (simp add: timedelta_def SIX_MONTH_DAYS_def)
    then have "ge_cutoff cutoff (Stamp m)" by (simp add: cutoff_def)
    with mm have "Stamp m \<in> set ds2" "\<forall>t. Stamp t \<in> set ds2 \<longrightarrow> t \<le> m" by (auto simp: ds2_def)
    then have mx: "max_dt ds2 = Some m" by (rule max_dt_eqI)
    have "limit_to_last_6_months (select_rows df' keep) dc = select_rows df' keep"
    proof (rule limit_fixpoint [OF d2 co2])
      show "max_dt ds2 = None \<or> (\<exists>m. max_dt ds2 = Some m \<and> (\<forall>d\<in>set ds2. ge_cutoff (m - timedelta SIX_MONTH_DAYS) d))"
        using mx by (auto simp: ds2_def cutoff_def)
      show "\<forall>c\<in>snd ` set (select_rows df' keep). col_len c \<le> length ds2"
        unfolding select_rows_def using len by (auto simp: col_len_select simp flip: len)
    qed
    with r show ?thesis by simp
  qed
qed

lemma pick_nth:
  "length keep = length xs \<Longrightarrow>
   pick xs keep = map ((!) xs) (filter ((!) keep) [0..<length xs])"
proof (induction xs arbitrary: keep rule: rev_induct)
  case Nil
  then show ?case by (simp add: pick_def)
next
  case (snoc y ys)
  then obtain ks k where keep: "keep = ks @ [k]" and len: "length ys = length ks"
    by (cases keep rule: rev_cases) auto
  define idx where "idx = filter ((!) ks) [0..<length ks]"
  have f: "filter ((!) (ks @ [k])) [0..<length ks] = idx"
    unfolding idx_def by (intro filter_cong) (auto simp: nth_append)
  have g: "map ((!) (ys @ [y])) idx = map ((!) ys) idx"
    unfolding idx_def using len by (intro map_cong) (auto simp: nth_append)
  have last: "(ys @ [y]) ! length ks = y" using len by (metis nth_append_length)
  have "pick (ys @ [y]) keep = pick ys ks @ (if k then [y] else [])"
    using len by (simp add: pick_def keep)
  also have "pick ys ks = map ((!) ys) idx"
    using snoc.IH [of ks] len by (simp add: idx_def)
  finally have lhs: "pick (ys @ [y]) keep = map ((!) ys) idx @ (if k then [y] else [])" .
  have "filter ((!) keep) [0..<length (ys @ [y])] = idx @ (if k then [length ks] else [])"
    using f by (simp add: keep len)
  then have "map ((!) (ys @ [y])) (filter ((!) keep) [0..<length (ys @ [y])])
           = map ((!) ys) idx @ (if k then [y] else [])"
    using g last by simp
  with lhs show ?case by simp
qed

lemma cell_at_select:
  assumes "col_len c = length keep" and "j < length (filter ((!) keep) [0..<length keep])"
  shows "cell_at (select_col keep c) j = cell_at c (filter ((!) keep) [0..<length keep] ! j)"
  using assms by (cases c) (simp_all add: pick_nth)

lemma nrows_select:
  assumes "rect df" "length keep = nrows df" "df \<noteq> []"
  shows "nrows (select_rows df keep) = length (filter ((!) keep) [0..<length keep])"
proof -
  from assms(3) obtain n c rest where df: "df = (n, c) # rest" by (cases df) auto
  with assms have "col_len c = length keep" by (simp add: nrows_def)
  then show ?thesis by (cases c) (simp_all add: df select_rows_def nrows_def pick_nth)
qed

lemma rows_select:
  assumes "rect df" "length keep = nrows df"
  shows "rows (select_rows df keep) = pick (rows df) keep"
proof (cases "df = []")
  case True
  then show ?thesis using assms by (simp add: rows_def select_rows_def nrows_def pick_def)
next
  case False
  define idx where "idx = filter ((!) keep) [0..<length keep]"
  have idx_lt: "\<forall>i \<in> set idx. i < nrows df" using assms(2) by (auto simp: idx_def)
  have r: "row (select_rows df keep) j = row df (idx ! j)" if "j < length idx" for j
    unfolding row_def select_rows_def map_map comp_def
  proof (rule map_cong [OF refl])
    fix p assume "p \<in> set df"
    then have "col_len (snd p) = length keep" using assms by (auto simp: rect_def)
    then show "(case case p of (n, c) \<Rightarrow> (n, select_col keep c) of (n, c) \<Rightarrow> (n, cell_at c j))
             = (case p of (n, c) \<Rightarrow> (n, cell_at c (idx ! j)))"
      using that cell_at_select [of "snd p" keep j] by (cases p) (simp add: idx_def)
  qed
  have "rows (select_rows df keep) = map (\<lambda>j. row df (idx ! j)) [0..<length idx]"
    unfolding rows_def nrows_select [OF assms False] idx_def [symmetric]
    by (rule map_cong) (auto simp: r)
  also have "\<dots> = map (row df) idx"
  proof -
    have "map (\<lambda>j. row df (idx ! j)) [0..<length idx] = map (row df) (map ((!) idx) [0..<length idx])"
      by simp
    then show ?thesis by (simp only: map_nth)
  qed
  also have "\<dots> = map ((!) (rows df)) idx"
    using idx_lt by (intro map_cong) (auto simp: rows_def)
  also have "\<dots> = pick (rows df) keep"
    using assms(2) by (simp add: pick_nth idx_def rows_def)
  finally show ?thesis .
qed

lemma set_update_subset: "set (AList.update k v al) \<subseteq> insert (k, v) (set al)"
  by (induction al) auto

lemma nrows_update:
  "map_of df k = Some c \<Longrightarrow> col_len v = nrows df \<Longrightarrow> nrows (AList.update k v df) = nrows df"
  by (cases df) (auto simp: nrows_def)

lemma rect_update:
  assumes "rect df" "map_of df k = Some c" "col_len v = nrows df"
  shows "rect (AList.update k v df)"
  unfolding rect_def nrows_update [OF assms(2,3)]
  using assms(1,3) set_update_subset [of k v df] by (auto simp: rect_def)

lemma length_coerce [simp]: "length (to_datetime_coerce c) = col_len c"
  by (cases c) auto

lemma map_of_row: "map_of (row df i) k = map_option (\<lambda>c. cell_at c i) (map_of df k)"
  unfolding row_def by (induction df) auto

lemma trim_window_rows:
  assumes r: "rect df" and col: "map_of df dc = Some col"
    and T: "Stamp T \<in> set (to_datetime_coerce col)"
    and mx: "\<forall>t. Stamp t \<in> set (to_datetime_coerce col) \<longrightarrow> t \<le> T"
  shows "rows (limit_to_last_6_months df dc)
       = filter (in_window T dc) (rows (AList.update dc (Dates (to_datetime_coerce col)) df))"
proof -
  define ds where "ds = to_datetime_coerce col"
  define df' where "df' = AList.update dc (Dates ds) df"
  define cutoff where "cutoff = T - timedelta SIX_MONTH_DAYS"
  define keep where "keep = map (ge_cutoff cutoff) ds"
  from col have "(dc, col) \<in> set df" by (rule map_of_SomeD)
  then have cl: "col_len col = nrows df" using r by (force simp: rect_def)
  then have n: "length ds = nrows df" by (simp add: ds_def)
  from T have "ds \<noteq> []" by (auto simp: ds_def)
  then have "0 < nrows df" using n by (cases ds) auto
  moreover from col have "df \<noteq> []" by auto
  ultimately have ne: "\<not> df_empty df" by (simp add: df_empty_def columns_def)
  have "max_dt ds = Some T" using T mx unfolding ds_def by (rule max_dt_eqI)
  then have lim: "limit_to_last_6_months df dc = select_rows df' keep"
    using ne col
    by (simp add: limit_to_last_6_months_def ds_def df'_def keep_def cutoff_def Let_def)
  have n': "nrows df' = nrows df" unfolding df'_def using col n by (intro nrows_update) auto
  have r': "rect df'" unfolding df'_def using r col n by (intro rect_update) auto
  have d': "map_of df' dc = Some (Dates ds)" by (simp add: df'_def AList.update_conv')
  have "keep = map (in_window T dc) (rows df')"
  proof (rule nth_equalityI)
    show "length keep = length (map (in_window T dc) (rows df'))"
      by (simp add: keep_def rows_def n n')
  next
    fix i assume "i < length keep"
    then have i: "i < length ds" by (simp add: keep_def)
    from nth_mem [OF i] have "ds ! i \<in> set (to_datetime_coerce col)" by (simp add: ds_def)
    then have le: "\<forall>t. ds ! i = Stamp t \<longrightarrow> t \<le> T" using mx by metis
    have "in_window T dc (row df' i) = ge_cutoff cutoff (ds ! i)"
      using le
      by (cases "ds ! i")
         (auto simp: in_window_def map_of_row d' cutoff_def timedelta_def SIX_MONTH_DAYS_def)
    then show "keep ! i = map (in_window T dc) (rows df') ! i"
      using i by (simp add: keep_def rows_def n n')
  qed
  moreover have "rows (select_rows df' keep) = pick (rows df') keep"
    using r' by (rule rows_select) (simp add: keep_def n n')
  ultimately have "rows (select_rows df' keep) = filter (in_window T dc) (rows df')"
    by (simp add: pick_map)
  then show ?thesis by (simp add: lim df'_def ds_def)
qed

lemma map_of_None_columns: "map_of df dc = None \<longleftrightarrow> dc \<notin> set (columns df)"
  by (simp add: columns_def map_of_eq_None_iff)

lemma trim_noop: "df_empty df \<or> dc \<notin> set (columns df) \<Longrightarrow> limit_to_last_6_months df dc = df"
  by (auto simp: limit_to_last_6_months_def simp flip: map_of_None_columns)

text \<open>
  Claim C3. For a table with the date column whose greatest timestamp is \<open>T\<close>, the trim
  keeps exactly the rows whose timestamp lies between \<open>T\<close> minus 182 days and \<open>T\<close>, both
  included (the rows are those of the table with its date column parsed); an empty
  table and a table without the date column come back as they are.
\<close>

theorem trim_window:
  "(df_empty df \<or> dc \<notin> set (columns df) \<longrightarrow> limit_to_last_6_months df dc = df) \<and>
   (wf_frame df \<and> map_of df dc = Some col \<and> Stamp T \<in> set (to_datetime_coerce col) \<and>
    (\<forall>t. Stamp t \<in> set (to_datetime_coerce col) \<longrightarrow> t \<le> T) \<longrightarrow>
    rows (limit_to_last_6_months df dc)
      = filter (in_window T dc) (rows (AList.update dc (Dates (to_datetime_coerce col)) df)))"
  using trim_noop [of df dc] trim_window_rows [of df dc col T] by (auto simp: wf_frame_def)

theorem trim_window_witness:
  "wf_frame trim_example
   \<and> map_of trim_example ''data''
       = Some (Dates [Str None, Stamp (day 200), Str (Some (day 18)), Str (Some (day 17)), Stamp (day 100)])
   \<and> rows (limit_to_last_6_months trim_example ''data'')
       = [[(''data'', D (Stamp (day 200))), (''Hidro'', N None)],
          [(''data'', D (Stamp (day 18))), (''Hidro'', N (Some 3))],
          [(''data'', D (Stamp (day 100))), (''Hidro'', N (Some 5))]]
   \<and> limit_to_last_6_months [] ''data'' = []"
proof -
  let ?col = "Dates [Str None, Stamp (day 200), Str (Some (day 18)), Str (Some (day 17)), Stamp (day 100)]"
  have wf: "wf_frame trim_example"
    by (simp add: wf_frame_def rect_def trim_example_def columns_def nrows_def)
  have col: "map_of trim_example ''data'' = Some ?col"
    by (simp add: trim_example_def)
  have T: "Stamp (day 200) \<in> set (to_datetime_coerce ?col)" by simp
  have mx: "\<forall>t. Stamp t \<in> set (to_datetime_coerce ?col) \<longrightarrow> t \<le> day 200"
    by (auto simp: day_def)
  have "rows (limit_to_last_6_months trim_example ''data'')
      = filter (in_window (day 200) ''data'')
          (rows (AList.update ''data'' (Dates (to_datetime_coerce ?col)) trim_example))"
    using trim_window [of trim_example "''data''" ?col "day 200"] wf col T mx by blast
  also have "\<dots> = [[(''data'', D (Stamp (day 200))), (''Hidro'', N None)],
          [(''data'', D (Stamp (day 18))), (''Hidro'', N (Some 3))],
          [(''data'', D (Stamp (day 100))), (''Hidro'', N (Some 5))]]"
    by (simp add: trim_example_def rows_def row_def nrows_def in_window_def day_def upt_rec)
  finally have r: "rows (limit_to_last_6_months trim_example ''data'') = [[(''data'', D (Stamp (day 200))), (''Hidro'', N None)],
          [(''data'', D (Stamp (day 18))), (''Hidro'', N (Some 3))],
          [(''data'', D (Stamp (day 100))), (''Hidro'', N (Some 5))]]" .
  have e: "limit_to_last_6_months [] ''data'' = []"
    using trim_window [of "[]" "''data''"] by (simp add: df_empty_def columns_def)
  show ?thesis using wf col r e by blast
qed


lemma limit_all_missing:
  assumes "\<not> df_empty df" "map_of df dc = Some col" "\<forall>d \<in> set (to_datetime_coerce col). d = NaT"
  shows "limit_to_last_6_months df dc
       = AList.update dc (Dates (replicate (col_len col) NaT)) df"
proof -
  have "max_dt (to_datetime_coerce col) = None"
    using assms(3) by (auto simp: max_dt_None)
  moreover have "to_datetime_coerce col = replicate (col_len col) NaT"
    using replicate_length_same [of "to_datetime_coerce col" NaT] assms(3) by simp
  ultimately show ?thesis using assms(1,2)
    by (simp add: limit_to_last_6_months_def)
qed

lemma limit_some_parse:
  assumes "\<not> df_empty df" "map_of df dc = Some col" "max_dt (to_datetime_coerce col) = Some m"
  shows "map_of (limit_to_last_6_months df dc) dc
       = Some (Dates (filter (ge_cutoff (m - timedelta SIX_MONTH_DAYS)) (to_datetime_coerce col)))"
  using assms
  by (simp add: limit_to_last_6_months_def Let_def map_of_select_rows AList.update_conv' pick_map)

lemma ge_cutoff_Stamp: "ge_cutoff c d \<Longrightarrow> \<exists>t. d = Stamp t \<and> c \<le> t"
  by (cases d) auto

lemma limit_rows_parsed:
  assumes r: "rect df" and col: "map_of df dc = Some col"
    and m: "max_dt (to_datetime_coerce col) = Some m"
  shows "rows (limit_to_last_6_months df dc)
       = filter (in_window m dc) (rows (AList.update dc (Dates (to_datetime_coerce col)) df))"
  using max_dt_Some [OF m] by (intro trim_window_rows [OF r col]) auto

lemma in_window_Stamp: "in_window T dc r \<Longrightarrow> \<exists>t. map_of r dc = Some (D (Stamp t))"
  by (auto simp: in_window_def split: option.splits cell.splits date_val.splits)

lemma missing_row_not_in_window:
  assumes "map_of df dc = Some col" and "to_datetime_coerce col ! i = NaT"
  shows "\<not> in_window T dc (row (AList.update dc (Dates (to_datetime_coerce col)) df) i)"
  using assms(2) by (simp add: in_window_def map_of_row AList.update_conv')

text \<open>
  Claim C10, in the form that holds of the code. The trim of a non-empty table with the
  date column is a total function of the table: the coercion of line 30 has no raising
  branch (unlike \<open>to_datetime\<close> of line 101, which raises on the same value), and a date
  value that does not parse becomes a missing timestamp. When no date value gives a
  timestamp, every row is kept and the table comes back with each date value replaced by
  the missing timestamp, the other columns as they were. Otherwise the rows of the result
  are exactly the rows of the parsed table whose timestamp lies in the window: every row
  kept has a timestamp, and no row whose date value is missing is among them.
\<close>

theorem trim_unparseable:
  assumes "\<not> df_empty df" and "map_of df dc = Some col"
  shows "(\<forall>ds i. col = Dates ds \<and> i < length ds \<and> ds ! i = Str None
            \<longrightarrow> to_datetime_coerce col ! i = NaT)
       \<and> ((\<forall>d \<in> set (to_datetime_coerce col). d = NaT) \<longrightarrow>
            limit_to_last_6_months df dc = AList.update dc (Dates (replicate (col_len col) NaT)) df)
       \<and> (\<forall>m. max_dt (to_datetime_coerce col) = Some m \<longrightarrow>
            (\<exists>ds. map_of (limit_to_last_6_months df dc) dc = Some (Dates ds)
                 \<and> ds = filter (ge_cutoff (m - 182 * 86400000000000)) (to_datetime_coerce col)
                 \<and> (\<forall>d \<in> set ds. \<exists>t. d = Stamp t)))
       \<and> ((\<forall>d \<in> set (to_datetime_coerce col). d = NaT)
            \<or> (\<exists>m. max_dt (to_datetime_coerce col) = Some m))
       \<and> (rect df \<longrightarrow>
            (\<forall>m. max_dt (to_datetime_coerce col) = Some m \<longrightarrow>
               rows (limit_to_last_6_months df dc)
                 = filter (in_window m dc)
                     (rows (AList.update dc (Dates (to_datetime_coerce col)) df))
             \<and> (\<forall>r \<in> set (rows (limit_to_last_6_months df dc)).
                   \<exists>t. map_of r dc = Some (D (Stamp t)))
             \<and> (\<forall>i < col_len col. to_datetime_coerce col ! i = NaT \<longrightarrow>
                   row (AList.update dc (Dates (to_datetime_coerce col)) df) i
                     \<notin> set (rows (limit_to_last_6_months df dc)))))"
proof (intro conjI)
  show "\<forall>ds i. col = Dates ds \<and> i < length ds \<and> ds ! i = Str None
            \<longrightarrow> to_datetime_coerce col ! i = NaT"
    by auto
next
  show "(\<forall>d \<in> set (to_datetime_coerce col). d = NaT) \<longrightarrow>
            limit_to_last_6_months df dc = AList.update dc (Dates (replicate (col_len col) NaT)) df"
    using assms by (auto intro: limit_all_missing)
next
  show "\<forall>m. max_dt (to_datetime_coerce col) = Some m \<longrightarrow>
            (\<exists>ds. map_of (limit_to_last_6_months df dc) dc = Some (Dates ds)
                 \<and> ds = filter (ge_cutoff (m - 182 * 86400000000000)) (to_datetime_coerce col)
                 \<and> (\<forall>d \<in> set ds. \<exists>t. d = Stamp t))"
  proof (intro allI impI)
    fix m assume m: "max_dt (to_datetime_coerce col) = Some m"
    let ?ds = "filter (ge_cutoff (m - 182 * 86400000000000)) (to_datetime_coerce col)"
    have "map_of (limit_to_last_6_months df dc) dc = Some (Dates ?ds)"
      using limit_some_parse [OF assms m] by (simp add: timedelta_def SIX_MONTH_DAYS_def)
    moreover have "\<forall>d \<in> set ?ds. \<exists>t. d = Stamp t"
      by (auto dest: ge_cutoff_Stamp)
    ultimately show "\<exists>ds. map_of (limit_to_last_6_months df dc) dc = Some (Dates ds)
                 \<and> ds = ?ds \<and> (\<forall>d \<in> set ds. \<exists>t. d = Stamp t)" by blast
  qed
next
  show "(\<forall>d \<in> set (to_datetime_coerce col). d = NaT)
            \<or> (\<exists>m. max_dt (to_datetime_coerce col) = Some m)"
  proof (cases "max_dt (to_datetime_coerce col)")
    case None
    then have "\<forall>t. Stamp t \<notin> set (to_datetime_coerce col)" by (simp add: max_dt_None)
    then have "\<forall>d \<in> set (to_datetime_coerce col). d = NaT"
      using coerce_no_Str [of _ col] by blast
    then show ?thesis by blast
  next
    case (Some m)
    then show ?thesis by blast
  qed
next
  show "rect df \<longrightarrow>
            (\<forall>m. max_dt (to_datetime_coerce col) = Some m \<longrightarrow>
               rows (limit_to_last_6_months df dc)
                 = filter (in_window m dc)
                     (rows (AList.update dc (Dates (to_datetime_coerce col)) df))
             \<and> (\<forall>r \<in> set (rows (limit_to_last_6_months df dc)).
                   \<exists>t. map_of r dc = Some (D (Stamp t)))
             \<and> (\<forall>i < col_len col. to_datetime_coerce col ! i = NaT \<longrightarrow>
                   row (AList.update dc (Dates (to_datetime_coerce col)) df) i
                     \<notin> set (rows (limit_to_last_6_months df dc))))"
  proof (intro impI allI)
    fix m assume r: "rect df" and m: "max_dt (to_datetime_coerce col) = Some m"
    let ?df' = "AList.update dc (Dates (to_datetime_coerce col)) df"
    have eq: "rows (limit_to_last_6_months df dc) = filter (in_window m dc) (rows ?df')"
      using r assms(2) m by (rule limit_rows_parsed)
    have st: "\<forall>r \<in> set (rows (limit_to_last_6_months df dc)). \<exists>t. map_of r dc = Some (D (Stamp t))"
      unfolding eq by (auto dest: in_window_Stamp)
    have ex: "\<forall>i < col_len col. to_datetime_coerce col ! i = NaT \<longrightarrow>
                row ?df' i \<notin> set (rows (limit_to_last_6_months df dc))"
      unfolding eq using missing_row_not_in_window [OF assms(2)] by auto
    from eq st ex show "rows (limit_to_last_6_months df dc) = filter (in_window m dc) (rows ?df')
             \<and> (\<forall>r \<in> set (rows (limit_to_last_6_months df dc)).
                   \<exists>t. map_of r dc = Some (D (Stamp t)))
             \<and> (\<forall>i < col_len col. to_datetime_coerce col ! i = NaT \<longrightarrow>
                   row ?df' i \<notin> set (rows (limit_to_last_6_months df dc)))" by blast
  qed
qed

theorem trim_unparseable_counterexample:
  "\<not> df_empty unparseable_example
   \<and> map_of unparseable_example ''data'' = Some (Dates [Str None, Str None])
   \<and> to_datetime_coerce (Dates [Str None, Str None]) = [NaT, NaT]
   \<and> limit_to_last_6_months unparseable_example ''data'' \<noteq> unparseable_example"
  by (simp add: unparseable_example_def df_empty_def columns_def nrows_def limit_to_last_6_months_def)

theorem trim_unparseable_witness:
  "\<not> df_empty unparseable_example
   \<and> map_of unparseable_example ''data'' = Some (Dates [Str None, Str None])
   \<and> limit_to_last_6_months unparseable_example ''data''
       = [(''data'', Dates [NaT, NaT]), (''Hidro'', Nums [Some 1, None])]
   \<and> \<not> df_empty trim_example \<and> rect trim_example
   \<and> map_of trim_example ''data''
       = Some (Dates [Str None, Stamp (day 200), Str (Some (day 18)), Str (Some (day 17)), Stamp (day 100)])
   \<and> max_dt (to_datetime_coerce
         (Dates [Str None, Stamp (day 200), Str (Some (day 18)), Str (Some (day 17)), Stamp (day 100)]))
       = Some (day 200)
   \<and> rows (limit_to_last_6_months trim_example ''data'')
       = [[(''data'', D (Stamp (day 200))), (''Hidro'', N None)],
          [(''data'', D (Stamp (day 18))), (''Hidro'', N (Some 3))],
          [(''data'', D (Stamp (day 100))), (''Hidro'', N (Some 5))]]
   \<and> [(''data'', D NaT), (''Hidro'', N (Some 1))]
       \<notin> set (rows (limit_to_last_6_months trim_example ''data''))"
proof -
  have ne: "\<not> df_empty unparseable_example"
    by (simp add: unparseable_example_def df_empty_def columns_def nrows_def)
  have col: "map_of unparseable_example ''data'' = Some (Dates [Str None, Str None])"
    by (simp add: unparseable_example_def)
  have "limit_to_last_6_months unparseable_example ''data''
      = AList.update ''data'' (Dates (replicate (col_len (Dates [Str None, Str None])) NaT)) unparseable_example"
    using trim_unparseable [OF ne col] by simp
  then have a: "limit_to_last_6_months unparseable_example ''data''
       = [(''data'', Dates [NaT, NaT]), (''Hidro'', Nums [Some 1, None])]"
    by (simp add: unparseable_example_def numeral_2_eq_2)
  let ?col = "Dates [Str None, Stamp (day 200), Str (Some (day 18)), Str (Some (day 17)), Stamp (day 100)]"
  let ?df' = "AList.update ''data'' (Dates (to_datetime_coerce ?col)) trim_example"
  have ne2: "\<not> df_empty trim_example"
    by (simp add: trim_example_def df_empty_def columns_def nrows_def)
  have re2: "rect trim_example"
    by (simp add: trim_example_def rect_def nrows_def)
  have col2: "map_of trim_example ''data'' = Some ?col"
    by (simp add: trim_example_def)
  have mx: "max_dt (to_datetime_coerce ?col) = Some (day 200)"
    by (simp add: day_def)
  from trim_unparseable [OF ne2 col2] re2 mx
  have eq: "rows (limit_to_last_6_months trim_example ''data'')
      = filter (in_window (day 200) ''data'') (rows ?df')"
    and ex: "\<forall>i < col_len ?col. to_datetime_coerce ?col ! i = NaT \<longrightarrow>
                row ?df' i \<notin> set (rows (limit_to_last_6_months trim_example ''data''))"
    by blast+
  have "filter (in_window (day 200) ''data'') (rows ?df')
     = [[(''data'', D (Stamp (day 200))), (''Hidro'', N None)],
          [(''data'', D (Stamp (day 18))), (''Hidro'', N (Some 3))],
          [(''data'', D (Stamp (day 100))), (''Hidro'', N (Some 5))]]"
    by (simp add: trim_example_def rows_def row_def nrows_def in_window_def day_def upt_rec)
  with eq have b: "rows (limit_to_last_6_months trim_example ''data'')
       = [[(''data'', D (Stamp (day 200))), (''Hidro'', N None)],
          [(''data'', D (Stamp (day 18))), (''Hidro'', N (Some 3))],
          [(''data'', D (Stamp (day 100))), (''Hidro'', N (Some 5))]]" by simp
  have "to_datetime_coerce ?col ! 0 = NaT" "0 < col_len ?col" by simp_all
  with ex have "row ?df' 0 \<notin> set (rows (limit_to_last_6_months trim_example ''data''))" by blast
  moreover have "row ?df' 0 = [(''data'', D NaT), (''Hidro'', N (Some 1))]"
    by (simp add: trim_example_def row_def)
  ultimately have c: "[(''data'', D NaT), (''Hidro'', N (Some 1))]
       \<notin> set (rows (limit_to_last_6_months trim_example ''data''))" by simp
  show ?thesis using ne col a ne2 re2 col2 mx b c by blast
qed


section \<open>Properties of the fetcher\<close>

lemma attempts_failed_step:
  "attempt_fails (get k) \<Longrightarrow>
   attempts get (k # rest) trace = attempts get rest (trace @ [Request, Printed (k + 1), Slept 5])"
  by (auto simp: attempt_fails_def split: outcome.splits option.splits)

lemma upt_3: "[0..<3] = [0, 1, 2]"
  by (simp add: upt_rec)

text \<open>
  Claim C2. When each of the three attempts fails (a status other than 200, which covers
  every status outside 2xx, a transport error or another exception of the request, or
  a body that is not JSON), \<open>fetch_dataset\<close> makes exactly three requests, sleeps 5
  seconds after each of them, and returns the empty list: it raises nothing.
\<close>

theorem fetch_retry_bound:
  assumes "\<forall>k < 3. attempt_fails (net category dataset_id start_date end_date k)"
  shows "fetch_dataset net category dataset_id start_date end_date
       = (Inr [], [Request, Printed 1, Slept 5, Request, Printed 2, Slept 5,
                   Request, Printed 3, Slept 5])"
proof -
  let ?get = "net category dataset_id start_date end_date"
  from assms have f: "attempt_fails (?get 0)" "attempt_fails (?get 1)" "attempt_fails (?get 2)"
    by auto
  have "attempts ?get [0, 1, 2] [] = attempts ?get [1, 2] [Request, Printed 1, Slept 5]"
    using attempts_failed_step [of ?get 0 "[1, 2]" "[]"] f(1) by (simp del: attempts.simps add: numeral_2_eq_2 numeral_3_eq_3)
  also have "\<dots> = attempts ?get [2] [Request, Printed 1, Slept 5, Request, Printed 2, Slept 5]"
    using attempts_failed_step [of ?get 1 "[2]" "[Request, Printed 1, Slept 5]"] f(2) by (simp del: attempts.simps add: numeral_2_eq_2 numeral_3_eq_3)
  also have "\<dots> = attempts ?get [] [Request, Printed 1, Slept 5, Request, Printed 2, Slept 5,
                   Request, Printed 3, Slept 5]"
    using attempts_failed_step [of ?get 2 "[]" "[Request, Printed 1, Slept 5, Request, Printed 2, Slept 5]"] f(3) by (simp del: attempts.simps add: numeral_2_eq_2 numeral_3_eq_3)
  finally show ?thesis by (simp add: fetch_dataset_def upt_3)
qed

theorem fetch_retry_bound_witness:
  "attempt_fails (failing_net ''gamyba'' ''101'' ''2024-01-01'' ''2024-07-01'' 0)
   \<and> attempt_fails (failing_net ''gamyba'' ''101'' ''2024-01-01'' ''2024-07-01'' 1)
   \<and> attempt_fails (failing_net ''gamyba'' ''101'' ''2024-01-01'' ''2024-07-01'' 2)
   \<and> fetch_dataset failing_net ''gamyba'' ''101'' ''2024-01-01'' ''2024-07-01''
       = (Inr [], [Request, Printed 1, Slept 5, Request, Printed 2, Slept 5,
                   Request, Printed 3, Slept 5])"
proof -
  have f: "attempt_fails (failing_net ''gamyba'' ''101'' ''2024-01-01'' ''2024-07-01'' k)" for k
    by (simp add: failing_net_def attempt_fails_def)
  then have h: "\<forall>k < 3. attempt_fails (failing_net ''gamyba'' ''101'' ''2024-01-01'' ''2024-07-01'' k)"
    by simp
  from fetch_retry_bound [of failing_net "''gamyba''" "''101''" "''2024-01-01''" "''2024-07-01''"] h f
  show ?thesis by blast
qed


section \<open>Properties of normalization\<close>

lemma drop_dups_keys: "set (map fst (drop_dups seen es)) = set (map fst es) - set seen"
  by (induction es arbitrary: seen) auto

lemma drop_dups_fresh: "(k, v) \<in> set (drop_dups seen es) \<Longrightarrow> k \<notin> set seen"
  using drop_dups_keys [of seen es] by force

lemma drop_dups_distinct: "distinct (map fst (drop_dups seen es))"
  by (induction es arbitrary: seen) (auto dest: drop_dups_fresh)

lemma drop_dups_map_of:
  "map_of (drop_dups seen es) k = (if k \<in> set seen then None else map_of es k)"
  by (induction es arbitrary: seen) auto

lemma drop_dups_id:
  "distinct (map fst es) \<Longrightarrow> set (map fst es) \<inter> set seen = {} \<Longrightarrow> drop_dups seen es = es"
  by (induction es arbitrary: seen) auto

lemma drop_dups_first:
  "drop_dups seen es =
     map ((!) es)
       (filter (\<lambda>i. fst (es ! i) \<notin> set seen \<and> (\<forall>j < i. fst (es ! j) \<noteq> fst (es ! i)))
          [0..<length es])"
proof (induction es arbitrary: seen)
  case Nil
  show ?case by simp
next
  case (Cons e es)
  let ?P = "\<lambda>s xs i. fst (xs ! i) \<notin> set s \<and> (\<forall>j < i. fst (xs ! j) \<noteq> fst (xs ! i))"
  have upt: "[0..<length (e # es)] = 0 # map Suc [0..<length es]"
    by (simp add: upt_conv_Cons map_Suc_upt del: upt_Suc)
  have split: "filter (?P seen (e # es)) [0..<length (e # es)]
      = (if fst e \<in> set seen then [] else [0])
        @ map Suc (filter (\<lambda>i. ?P seen (e # es) (Suc i)) [0..<length es])"
    unfolding upt by (simp add: filter_map comp_def)
  have suc: "?P seen (e # es) (Suc i) \<longleftrightarrow> ?P (fst e # seen) es i" if "fst e \<notin> set seen" for i
    by (auto simp: less_Suc_eq_0_disj)
  have suc': "?P seen (e # es) (Suc i) \<longleftrightarrow> ?P seen es i" if "fst e \<in> set seen" for i
    using that by (auto simp: less_Suc_eq_0_disj)
  show ?case
  proof (cases "fst e \<in> set seen")
    case True
    have "filter (\<lambda>i. ?P seen (e # es) (Suc i)) [0..<length es] = filter (?P seen es) [0..<length es]"
      using suc' [OF True] by (intro filter_cong) auto
    then show ?thesis using True Cons.IH [of seen]
      unfolding split by (simp add: comp_def del: upt_Suc)
  next
    case False
    have "filter (\<lambda>i. ?P seen (e # es) (Suc i)) [0..<length es]
        = filter (?P (fst e # seen) es) [0..<length es]"
      using suc [OF False] by (intro filter_cong) auto
    then show ?thesis using False Cons.IH [of "fst e # seen"]
      unfolding split by (simp add: comp_def del: upt_Suc)
  qed
qed

lemma to_datetime_ok:
  "\<forall>d \<in> set ds. d \<noteq> Str None \<Longrightarrow> to_datetime ds = Inr (map (\<lambda>d. stamp_of (coerce d)) ds)"
  by (induction ds) auto

lemma to_datetime_keys:
  "to_datetime (map date_of_key ks) = Inr ks"
proof -
  have "\<forall>d \<in> set (map date_of_key ks). d \<noteq> Str None"
    by (auto simp: date_of_key_def split: option.splits)
  then have "to_datetime (map date_of_key ks) = Inr (map (\<lambda>d. stamp_of (coerce d)) (map date_of_key ks))"
    by (rule to_datetime_ok)
  also have "map (\<lambda>d. stamp_of (coerce d)) (map date_of_key ks) = ks"
    by (induction ks) (auto simp: date_of_key_def split: option.splits)
  finally show ?thesis .
qed

lemma normalize_records_of:
  assumes "entries s \<noteq> []" "distinct (map fst (entries s))"
  shows "normalize (name s) (records_of s) = Inr (Some s)"
proof -
  let ?es = "entries s"
  have l: "map ltu_cell (records_of s) = map date_of_key (map fst ?es)"
    by (auto simp: records_of_def ltu_cell_def)
  have td: "to_datetime (map ltu_cell (records_of s)) = Inr (map fst ?es)"
    unfolding l by (rule to_datetime_keys)
  have v: "map val_cell (records_of s) = map snd ?es"
    by (auto simp: records_of_def val_cell_def)
  obtain e es' where es: "?es = e # es'" using assms(1) by (cases ?es) auto
  have ex: "list_ex (\<lambda>r. ltu r \<noteq> None) (records_of s)" "list_ex (\<lambda>r. val r \<noteq> None) (records_of s)"
    by (auto simp: records_of_def es split: prod.splits)
  have ne: "records_of s \<noteq> []" by (simp add: records_of_def assms(1))
  have "drop_duplicates (zip (map fst ?es) (map snd ?es)) = ?es"
    using assms(2) by (simp add: drop_duplicates_def drop_dups_id zip_map_fst_snd)
  then show ?thesis using ne ex
    by (simp add: normalize_def td v)
qed


text \<open>
  Claim C7. Normalizing a raw record list whose dates all parse keeps, for each
  timestamp, the first record with that timestamp in the order of the list and drops the
  later ones. The timestamps of the result are distinct, there are as many as the input
  has distinct timestamps, and normalizing the result again gives the same series.
\<close>

theorem normalize_dedup:
  assumes "data \<noteq> []" and "list_ex (\<lambda>r. ltu r \<noteq> None) data"
    and "list_ex (\<lambda>r. val r \<noteq> None) data" and "\<forall>r \<in> set data. ltu r \<noteq> Some (Str None)"
  shows "\<exists>s. normalize nm data = Inr (Some s) \<and> name s = nm
     \<and> entries s = map ((!) (parsed_rows data))
          (filter (\<lambda>i. \<forall>j < i. fst (parsed_rows data ! j) \<noteq> fst (parsed_rows data ! i))
             [0..<length (parsed_rows data)])
     \<and> distinct (map fst (entries s))
     \<and> length (entries s) = card (fst ` set (parsed_rows data))
     \<and> normalize nm (records_of s) = Inr (Some s)"
proof -
  let ?raw = "parsed_rows data"
  define s where "s = \<lparr>name = nm, entries = drop_duplicates ?raw\<rparr>"
  have "\<forall>d \<in> set (map ltu_cell data). d \<noteq> Str None"
    using assms(4) by (auto simp: ltu_cell_def split: option.splits)
  then have td: "to_datetime (map ltu_cell data) = Inr (map (\<lambda>d. stamp_of (coerce d)) (map ltu_cell data))"
    by (rule to_datetime_ok)
  have n: "normalize nm data = Inr (Some s)"
    using assms(1-3) by (simp add: normalize_def td s_def parsed_rows_def comp_def)
  have e: "entries s = drop_dups [] ?raw" by (simp add: s_def drop_duplicates_def)
  have first: "entries s = map ((!) ?raw)
          (filter (\<lambda>i. \<forall>j < i. fst (?raw ! j) \<noteq> fst (?raw ! i)) [0..<length ?raw])"
    unfolding e by (subst drop_dups_first) simp
  have d: "distinct (map fst (entries s))" unfolding e by (rule drop_dups_distinct)
  have "card (set (map fst (entries s))) = length (map fst (entries s))"
    using d by (rule distinct_card)
  moreover have "set (map fst (entries s)) = fst ` set ?raw" unfolding e drop_dups_keys by simp
  ultimately have c: "length (entries s) = card (fst ` set ?raw)" by simp
  from assms(1) have "?raw \<noteq> []" by (cases data) (auto simp: parsed_rows_def)
  then have "entries s \<noteq> []" unfolding e by (cases ?raw) auto
  then have "normalize (name s) (records_of s) = Inr (Some s)" using d by (rule normalize_records_of)
  then have i: "normalize nm (records_of s) = Inr (Some s)" by (simp add: s_def)
  have "name s = nm" by (simp add: s_def)
  with n first d c i show ?thesis by blast
qed

theorem normalize_dedup_witness:
  "dup_example \<noteq> [] \<and> list_ex (\<lambda>r. ltu r \<noteq> None) dup_example
   \<and> list_ex (\<lambda>r. val r \<noteq> None) dup_example
   \<and> list_all (\<lambda>r. ltu r \<noteq> Some (Str None)) dup_example
   \<and> normalize ''Hidro'' dup_example
       = Inr (Some \<lparr>name = ''Hidro'',
                    entries = [(Some (day 1), Some 10), (Some (day 2), Some 5), (Some (day 3), Some 4)]\<rparr>)
   \<and> card (fst ` set (parsed_rows dup_example)) = 3"
proof -
  have h: "dup_example \<noteq> []" "list_ex (\<lambda>r. ltu r \<noteq> None) dup_example"
    "list_ex (\<lambda>r. val r \<noteq> None) dup_example" "\<forall>r \<in> set dup_example. ltu r \<noteq> Some (Str None)"
    by (simp_all add: dup_example_def rec_def)
  from normalize_dedup [OF h, of "''Hidro''"] obtain s where
    s: "normalize ''Hidro'' dup_example = Inr (Some s)"
    and c: "length (entries s) = card (fst ` set (parsed_rows dup_example))" by blast
  have v: "normalize ''Hidro'' dup_example
       = Inr (Some \<lparr>name = ''Hidro'',
                    entries = [(Some (day 1), Some 10), (Some (day 2), Some 5), (Some (day 3), Some 4)]\<rparr>)"
    by (simp add: normalize_def dup_example_def rec_def ltu_cell_def val_cell_def
        drop_duplicates_def day_def)
  with s have "s = \<lparr>name = ''Hidro'',
                    entries = [(Some (day 1), Some 10), (Some (day 2), Some 5), (Some (day 3), Some 4)]\<rparr>"
    by simp
  with c have "card (fst ` set (parsed_rows dup_example)) = 3" by simp
  moreover from h(4) have "list_all (\<lambda>r. ltu r \<noteq> Some (Str None)) dup_example"
    by (simp add: list_all_iff)
  ultimately show ?thesis using h(1-3) v by blast
qed



section \<open>Properties of the merge\<close>

lemma set_union_index: "set (union_index all_dfs) = (\<Union>s \<in> set all_dfs. fst ` set (entries s))"
  by (auto simp: union_index_def)

lemma distinct_union_index: "distinct (union_index all_dfs)"
  by (simp add: union_index_def)

lemma filter_None_distinct:
  "distinct ks \<Longrightarrow> filter (\<lambda>k. k = None) ks = (if None \<in> set ks then [None] else [])"
proof (induction ks)
  case Nil
  show ?case by simp
next
  case (Cons k ks)
  then have "None \<notin> set ks \<Longrightarrow> filter (\<lambda>k. k = None) ks = []" by simp
  with Cons show ?case by (cases k) auto
qed

lemma set_sort_index: "set (sort_index ks) = set ks"
proof -
  have "Some ` the ` {k \<in> set ks. k \<noteq> None} = {k \<in> set ks. k \<noteq> None}"
    by force
  then show ?thesis by (auto simp: sort_index_def)
qed

lemma distinct_the: "distinct ks \<Longrightarrow> distinct (map the (filter (\<lambda>k. k \<noteq> None) ks))"
  by (induction ks) (auto simp: image_iff)

lemma sorted_sort_index:
  assumes "distinct ks"
  shows "sorted_wrt key_less (sort_index ks)"
proof -
  let ?ts = "sort (map the (filter (\<lambda>k. k \<noteq> None) ks))"
  have "distinct ?ts" using distinct_the [OF assms] by (simp only: distinct_sort)
  moreover have "sorted ?ts" by (rule sorted_sort)
  ultimately have "sorted_wrt (<) ?ts" by (simp only: strict_sorted_iff)
  then have a: "sorted_wrt key_less (map Some ?ts)"
    by (simp add: sorted_wrt_map key_less_def)
  have b: "sorted_wrt key_less (filter (\<lambda>k. k = None) ks)"
    using assms by (simp add: filter_None_distinct)
  show ?thesis
    unfolding sort_index_def sorted_wrt_append using a b by (auto simp: key_less_def)
qed

lemma key_less_irrefl: "\<not> key_less k k"
  by (simp add: key_less_def split: option.splits)

lemma sorted_key_less_distinct: "sorted_wrt key_less ks \<Longrightarrow> distinct ks"
  by (induction ks) (auto simp: key_less_irrefl)

text \<open>
  Claim C4. Line 115 builds a full outer join on the timestamps: for a non-empty list of
  normalized series, the rows of the merged table are indexed by exactly the timestamps
  that occur in some series, in ascending order (a missing timestamp last) and without
  repetition; the table has one column per series, under its name, and its cell at a
  timestamp is the value of the series' record at that timestamp, and is missing where
  the series has no record there.
\<close>

theorem merge_outer_join:
  assumes "all_dfs \<noteq> []" and "\<forall>s \<in> set all_dfs. distinct (map fst (entries s))"
  shows "\<exists>ks cols. merge_frames all_dfs = Inr ((''data'', Dates (map date_of_key ks)) # cols)
     \<and> set ks = (\<Union>s \<in> set all_dfs. fst ` set (entries s))
     \<and> sorted_wrt key_less ks \<and> distinct ks
     \<and> length cols = length all_dfs
     \<and> (\<forall>j < length all_dfs. \<exists>vs. cols ! j = (name (all_dfs ! j), Nums vs) \<and> length vs = length ks
          \<and> (\<forall>i < length ks.
                (ks ! i \<notin> fst ` set (entries (all_dfs ! j)) \<longrightarrow> vs ! i = None)
              \<and> (\<forall>v. (ks ! i, v) \<in> set (entries (all_dfs ! j)) \<longrightarrow> vs ! i = v)))"
proof -
  define ks where "ks = sort_index (union_index all_dfs)"
  define cols where "cols = map (\<lambda>s. (name s, Nums (reindex s ks))) all_dfs"
  have m: "merge_frames all_dfs = Inr ((''data'', Dates (map date_of_key ks)) # cols)"
    using assms(1) by (simp add: merge_frames_def ks_def cols_def Let_def)
  have s: "set ks = (\<Union>s \<in> set all_dfs. fst ` set (entries s))"
    by (simp add: ks_def set_sort_index set_union_index)
  have o: "sorted_wrt key_less ks"
    unfolding ks_def by (rule sorted_sort_index) (rule distinct_union_index)
  then have d: "distinct ks" by (rule sorted_key_less_distinct)
  have l: "length cols = length all_dfs" by (simp add: cols_def)
  have c: "\<exists>vs. cols ! j = (name (all_dfs ! j), Nums vs) \<and> length vs = length ks
          \<and> (\<forall>i < length ks.
                (ks ! i \<notin> fst ` set (entries (all_dfs ! j)) \<longrightarrow> vs ! i = None)
              \<and> (\<forall>v. (ks ! i, v) \<in> set (entries (all_dfs ! j)) \<longrightarrow> vs ! i = v))"
    if j: "j < length all_dfs" for j
  proof -
    let ?s = "all_dfs ! j"
    from j assms(2) have dist: "distinct (map fst (entries ?s))" by simp
    have 1: "cols ! j = (name ?s, Nums (reindex ?s ks))" using j by (simp add: cols_def)
    have 2: "length (reindex ?s ks) = length ks" by (simp add: reindex_def)
    have 3: "reindex ?s ks ! i = None" if "i < length ks" "ks ! i \<notin> fst ` set (entries ?s)" for i
    proof -
      from that(2) have "map_of (entries ?s) (ks ! i) = None" by (simp add: map_of_eq_None_iff)
      then show ?thesis using that(1) by (simp add: reindex_def)
    qed
    have 4: "reindex ?s ks ! i = v" if "i < length ks" "(ks ! i, v) \<in> set (entries ?s)" for i v
    proof -
      from dist that(2) have "map_of (entries ?s) (ks ! i) = Some v" by (rule map_of_is_SomeI)
      then show ?thesis using that(1) by (simp add: reindex_def)
    qed
    from 1 2 3 4 show ?thesis by blast
  qed
  from m s o d l c show ?thesis by blast
qed


theorem merge_outer_join_witness:
  "[series_A, series_B] \<noteq> []
   \<and> distinct (map fst (entries series_A)) \<and> distinct (map fst (entries series_B))
   \<and> merge_frames [series_A, series_B]
       = Inr [(''data'', Dates [Stamp (day 1), Stamp (day 2), Stamp (day 3)]),
              (''Saules'', Nums [Some 1, Some 2, None]),
              (''Vejo'', Nums [None, Some 20, Some 30])]"
proof -
  have d: "distinct (map fst (entries series_A))" "distinct (map fst (entries series_B))"
    by (simp_all add: series_A_def series_B_def day_def)
  then have h: "\<forall>s \<in> set [series_A, series_B]. distinct (map fst (entries s))" by simp
  from merge_outer_join [of "[series_A, series_B]"] h
  obtain ks cols where
    m: "merge_frames [series_A, series_B] = Inr ((''data'', Dates (map date_of_key ks)) # cols)"
    and s: "set ks = (\<Union>s \<in> set [series_A, series_B]. fst ` set (entries s))"
    by blast
  have v: "merge_frames [series_A, series_B]
       = Inr [(''data'', Dates [Stamp (day 1), Stamp (day 2), Stamp (day 3)]),
              (''Saules'', Nums [Some 1, Some 2, None]),
              (''Vejo'', Nums [None, Some 20, Some 30])]"
    by (simp add: merge_frames_def series_A_def series_B_def union_index_def sort_index_def
        reindex_def date_of_key_def day_def)
  from m v d show ?thesis by simp
qed



section \<open>Properties of processing\<close>

lemma is_numsD: "is_nums df k \<Longrightarrow> map_of df k = Some (Nums (nums_of df k))"
  by (auto simp: is_nums_def nums_of_def split: option.splits column.splits)

lemma is_numsI: "map_of df k = Some (Nums vs) \<Longrightarrow> is_nums df k \<and> nums_of df k = vs"
  by (simp add: is_nums_def nums_of_def)

lemma getitems_nums:
  "\<forall>k \<in> set ks. is_nums df k \<Longrightarrow> getitems df ks = Inr (map (\<lambda>k. (k, Nums (nums_of df k))) ks)"
  by (induction ks) (auto dest: is_numsD)

lemma numeric_nums: "numeric (map (\<lambda>k. (k, Nums (f k))) ks) = Inr (map (\<lambda>k. (k, f k)) ks)"
  by (induction ks) auto

lemma map_of_setitems:
  "map_of (setitems df (map (\<lambda>k. (k, f k)) ks)) k
     = (if k \<in> set ks then Some (Nums (f k)) else map_of df k)"
proof (induction ks arbitrary: df)
  case Nil
  show ?case by (simp add: setitems_def)
next
  case (Cons a ks)
  have "setitems df (map (\<lambda>k. (k, f k)) (a # ks))
      = setitems (AList.update a (Nums (f a)) df) (map (\<lambda>k. (k, f k)) ks)"
    by (simp add: setitems_def)
  then show ?case using Cons.IH [of "AList.update a (Nums (f a)) df"]
    by (simp add: AList.update_conv')
qed

lemma getnums_nums: "is_nums df k \<Longrightarrow> getnums df k = Inr (nums_of df k)"
  by (auto simp: getnums_def dest: is_numsD)

lemma map_of_limit_other:
  assumes "k \<noteq> dc" "map_of df k = Some (Nums vs)"
  shows "\<exists>ws. map_of (limit_to_last_6_months df dc) k = Some (Nums ws)"
  using assms
  by (auto simp: limit_to_last_6_months_def Let_def map_of_select_rows AList.update_conv'
           split: option.splits)

lemma is_nums_limit: "k \<noteq> dc \<Longrightarrow> is_nums df k \<Longrightarrow> is_nums (limit_to_last_6_months df dc) k"
  using map_of_limit_other [of k dc df "nums_of df k"] by (auto dest: is_numsD is_numsI)

lemma sources_names:
  "''Vartojimas'' \<notin> set sources" "''Sumine_Generacija'' \<notin> set sources"
  "''Disbalansas'' \<notin> set sources" "''data'' \<notin> set sources"
  by (simp_all add: sources_def)

lemma process_steps:
  assumes src: "\<forall>k \<in> set sources. is_nums t k" and cons: "is_nums t ''Vartojimas''"
  shows "(case fill_sources t of
             Inl e \<Rightarrow> Inl e
           | Inr df1 \<Rightarrow>
               (case fill_consumption df1 of
                  Inl e \<Rightarrow> Inl e
                | Inr df2 \<Rightarrow>
                    (case add_total df2 of
                       Inl e \<Rightarrow> Inl e
                     | Inr df3 \<Rightarrow> add_imbalance df3))) = Inr (processed t)"
proof -
  define filled where "filled = map (\<lambda>k. (k, fillna 0 (nums_of t k))) sources"
  define c where "c = ffill (nums_of t ''Vartojimas'')"
  define df1 where "df1 = setitems t filled"
  define df2 where "df2 = AList.update ''Vartojimas'' (Nums c) df1"
  define gen where "gen = sum_axis1 (nrows df2) filled"
  define df3 where "df3 = AList.update ''Sumine_Generacija'' (Nums gen) df2"
  have p: "processed t = AList.update ''Disbalansas'' (Nums (sub_col gen c)) df3"
    by (simp add: processed_def Let_def filled_def c_def df1_def df2_def gen_def df3_def)
  have 1: "fill_sources t = Inr df1"
    using getitems_nums [OF src]
    by (simp add: fill_sources_def numeric_nums df1_def filled_def comp_def)
  have m1: "map_of df1 k = (if k \<in> set sources then Some (Nums (fillna 0 (nums_of t k))) else map_of t k)" for k
    unfolding df1_def filled_def by (rule map_of_setitems)
  have "map_of df1 ''Vartojimas'' = Some (Nums (nums_of t ''Vartojimas''))"
    using m1 [of "''Vartojimas''"] is_numsD [OF cons] by (simp add: sources_names)
  then have 2: "fill_consumption df1 = Inr df2"
    by (simp add: fill_consumption_def getnums_def df2_def c_def)
  have m2: "map_of df2 k = Some (Nums (fillna 0 (nums_of t k)))" if "k \<in> set sources" for k
    using that m1 [of k] sources_names(1) by (auto simp: df2_def AList.update_conv')
  then have "\<forall>k \<in> set sources. is_nums df2 k" by (auto dest: is_numsI)
  then have "getitems df2 sources = Inr (map (\<lambda>k. (k, Nums (nums_of df2 k))) sources)"
    by (rule getitems_nums)
  moreover have "map (\<lambda>k. (k, nums_of df2 k)) sources = filled"
    unfolding filled_def using m2 by (intro map_cong) (auto dest: is_numsI)
  ultimately have 3: "add_total df2 = Inr df3"
    by (simp add: add_total_def numeric_nums df3_def gen_def)
  have "map_of df3 ''Sumine_Generacija'' = Some (Nums gen)"
    by (simp add: df3_def AList.update_conv')
  moreover have "map_of df3 ''Vartojimas'' = Some (Nums c)"
    by (simp add: df3_def df2_def AList.update_conv')
  ultimately have 4: "add_imbalance df3 = Inr (processed t)"
    by (simp add: add_imbalance_def getnums_def p)
  show ?thesis by (simp add: 1 2 3 4)
qed

lemma process_data_result:
  assumes "\<not> df_empty df" and "\<forall>k \<in> set sources. is_nums df k" and "is_nums df ''Vartojimas''"
  shows "process_data df = Inr (processed (limit_to_last_6_months df ''data''))"
proof -
  let ?t = "limit_to_last_6_months df ''data''"
  have "\<forall>k \<in> set sources. is_nums ?t k"
    using assms(2) sources_names(4) by (auto intro!: is_nums_limit)
  moreover have "is_nums ?t ''Vartojimas''" using assms(3) by (auto intro!: is_nums_limit)
  ultimately show ?thesis using assms(1) by (simp add: process_data_def process_steps)
qed

lemma map_of_processed:
  "map_of (processed t) k =
     (if k = ''Disbalansas'' then
        Some (Nums (sub_col
          (sum_axis1 (nrows (AList.update ''Vartojimas'' (Nums (ffill (nums_of t ''Vartojimas'')))
             (setitems t (map (\<lambda>k. (k, fillna 0 (nums_of t k))) sources))))
             (map (\<lambda>k. (k, fillna 0 (nums_of t k))) sources))
          (ffill (nums_of t ''Vartojimas''))))
      else if k = ''Sumine_Generacija'' then
        Some (Nums (sum_axis1 (nrows (AList.update ''Vartojimas'' (Nums (ffill (nums_of t ''Vartojimas'')))
             (setitems t (map (\<lambda>k. (k, fillna 0 (nums_of t k))) sources))))
             (map (\<lambda>k. (k, fillna 0 (nums_of t k))) sources)))
      else if k = ''Vartojimas'' then Some (Nums (ffill (nums_of t ''Vartojimas'')))
      else if k \<in> set sources then Some (Nums (fillna 0 (nums_of t k)))
      else map_of t k)"
  by (simp add: processed_def Let_def AList.update_conv' map_of_setitems)


lemma length_ffill_from [simp]: "length (ffill_from p vs) = length vs"
  by (induction p vs rule: ffill_from.induct) auto

lemma ffill_from_missing:
  "i < length vs \<Longrightarrow> \<forall>j \<le> i. vs ! j = None \<Longrightarrow> ffill_from p vs ! i = p"
proof (induction p vs arbitrary: i rule: ffill_from.induct)
  case (1 prev)
  then show ?case by simp
next
  case (2 prev vs)
  show ?case
  proof (cases i)
    case 0
    then show ?thesis by simp
  next
    case (Suc n)
    have "\<forall>j \<le> n. vs ! j = None"
    proof (intro allI impI)
      fix j assume "j \<le> n"
      then have "Suc j \<le> i" using Suc by simp
      with "2.prems"(2) have "(None # vs) ! Suc j = None" by blast
      then show "vs ! j = None" by simp
    qed
    with "2.IH" [of n] "2.prems"(1) Suc show ?thesis by simp
  qed
next
  case (3 prev x vs)
  from "3.prems"(2) have "(Some x # vs) ! 0 = None" by blast
  then show ?case by simp
qed

lemma ffill_from_prior:
  "j \<le> i \<Longrightarrow> i < length vs \<Longrightarrow> vs ! j = Some x \<Longrightarrow> \<forall>k. j < k \<and> k \<le> i \<longrightarrow> vs ! k = None
   \<Longrightarrow> ffill_from p vs ! i = Some x"
proof (induction p vs arbitrary: i j rule: ffill_from.induct)
  case (1 prev)
  then show ?case by simp
next
  case (2 prev vs)
  from "2.prems"(3) obtain j' where j: "j = Suc j'" by (cases j) auto
  with "2.prems"(1) obtain i' where i: "i = Suc i'" by (cases i) auto
  have "\<forall>k. j' < k \<and> k \<le> i' \<longrightarrow> vs ! k = None"
  proof (intro allI impI)
    fix k assume "j' < k \<and> k \<le> i'"
    then have "j < Suc k \<and> Suc k \<le> i" using i j by simp
    with "2.prems"(4) have "(None # vs) ! Suc k = None" by blast
    then show "vs ! k = None" by simp
  qed
  with "2.IH" [of j' i'] "2.prems" i j show ?case by simp
next
  case (3 prev y vs)
  show ?case
  proof (cases j)
    case 0
    with "3.prems"(3) have xy: "y = x" by simp
    show ?thesis
    proof (cases i)
      case 0
      then show ?thesis using xy by simp
    next
      case (Suc i')
      have "\<forall>k \<le> i'. vs ! k = None"
      proof (intro allI impI)
        fix k assume "k \<le> i'"
        then have "j < Suc k \<and> Suc k \<le> i" using Suc \<open>j = 0\<close> by simp
        with "3.prems"(4) have "(Some y # vs) ! Suc k = None" by blast
        then show "vs ! k = None" by simp
      qed
      with "3.prems"(2) Suc have "ffill_from (Some y) vs ! i' = Some y"
        by (intro ffill_from_missing) auto
      then show ?thesis using Suc xy by simp
    qed
  next
    case (Suc j')
    with "3.prems"(1) obtain i' where i: "i = Suc i'" by (cases i) auto
    have "\<forall>k. j' < k \<and> k \<le> i' \<longrightarrow> vs ! k = None"
    proof (intro allI impI)
      fix k assume "j' < k \<and> k \<le> i'"
      then have "j < Suc k \<and> Suc k \<le> i" using i Suc by simp
      with "3.prems"(4) have "(Some y # vs) ! Suc k = None" by blast
      then show "vs ! k = None" by simp
    qed
    with "3.IH" [of j' i'] "3.prems" i Suc show ?thesis by simp
  qed
qed

lemma nth_fillna:
  "i < length vs \<Longrightarrow> fillna x vs ! i = (case vs ! i of None \<Rightarrow> Some x | Some y \<Rightarrow> Some y)"
  by (simp add: fillna_def)

lemma length_fillna [simp]: "length (fillna x vs) = length vs"
  by (simp add: fillna_def)

text \<open>
  Claim C5. When the table has the six generation columns and the consumption column,
  \<open>process_data\<close> returns a table in which, against the trimmed input, a generation cell
  that was missing is 0 and any other generation cell is as it was, and a consumption
  cell that was missing holds the nearest earlier value that was not missing, or stays
  missing when there is none; a consumption cell that was not missing is as it was.
\<close>

theorem gap_fill_policies:
  assumes "\<not> df_empty df" and "\<forall>k \<in> set sources. is_nums df k" and "is_nums df ''Vartojimas''"
  shows "\<exists>out. process_data df = Inr out
    \<and> (\<forall>k \<in> set sources. is_nums out k
          \<and> length (nums_of out k) = length (nums_of (limit_to_last_6_months df ''data'') k)
          \<and> (\<forall>i < length (nums_of out k).
               nums_of out k ! i
                 = (case nums_of (limit_to_last_6_months df ''data'') k ! i of
                      None \<Rightarrow> Some 0 | Some x \<Rightarrow> Some x)))
    \<and> is_nums out ''Vartojimas''
    \<and> length (nums_of out ''Vartojimas'')
        = length (nums_of (limit_to_last_6_months df ''data'') ''Vartojimas'')
    \<and> (\<forall>i < length (nums_of out ''Vartojimas'').
          ((\<forall>j \<le> i. nums_of (limit_to_last_6_months df ''data'') ''Vartojimas'' ! j = None)
             \<longrightarrow> nums_of out ''Vartojimas'' ! i = None)
        \<and> (\<forall>j x. j \<le> i \<and> nums_of (limit_to_last_6_months df ''data'') ''Vartojimas'' ! j = Some x
                   \<and> (\<forall>k. j < k \<and> k \<le> i
                         \<longrightarrow> nums_of (limit_to_last_6_months df ''data'') ''Vartojimas'' ! k = None)
             \<longrightarrow> nums_of out ''Vartojimas'' ! i = Some x))"
proof -
  let ?t = "limit_to_last_6_months df ''data''"
  let ?out = "processed ?t"
  have r: "process_data df = Inr ?out" using assms by (rule process_data_result)
  have g: "is_nums ?out k \<and> nums_of ?out k = fillna 0 (nums_of ?t k)" if "k \<in> set sources" for k
  proof (rule is_numsI)
    show "map_of ?out k = Some (Nums (fillna 0 (nums_of ?t k)))"
      using that sources_names by (subst map_of_processed) auto
  qed
  have c: "is_nums ?out ''Vartojimas'' \<and> nums_of ?out ''Vartojimas'' = ffill (nums_of ?t ''Vartojimas'')"
    by (rule is_numsI) (simp add: map_of_processed)
  have 1: "\<forall>k \<in> set sources. is_nums ?out k
          \<and> length (nums_of ?out k) = length (nums_of ?t k)
          \<and> (\<forall>i < length (nums_of ?out k).
               nums_of ?out k ! i = (case nums_of ?t k ! i of None \<Rightarrow> Some 0 | Some x \<Rightarrow> Some x))"
    using g by (simp add: nth_fillna)
  have 2: "length (nums_of ?out ''Vartojimas'') = length (nums_of ?t ''Vartojimas'')"
    using c by (simp add: ffill_def)
  have 3: "\<forall>i < length (nums_of ?out ''Vartojimas'').
          ((\<forall>j \<le> i. nums_of ?t ''Vartojimas'' ! j = None) \<longrightarrow> nums_of ?out ''Vartojimas'' ! i = None)
        \<and> (\<forall>j x. j \<le> i \<and> nums_of ?t ''Vartojimas'' ! j = Some x
                   \<and> (\<forall>k. j < k \<and> k \<le> i \<longrightarrow> nums_of ?t ''Vartojimas'' ! k = None)
             \<longrightarrow> nums_of ?out ''Vartojimas'' ! i = Some x)"
  proof (intro allI impI conjI)
    fix i assume "i < length (nums_of ?out ''Vartojimas'')"
      and "\<forall>j \<le> i. nums_of ?t ''Vartojimas'' ! j = None"
    then show "nums_of ?out ''Vartojimas'' ! i = None"
      using c 2 by (simp add: ffill_def ffill_from_missing)
  next
    fix i j x assume "i < length (nums_of ?out ''Vartojimas'')"
      and "j \<le> i \<and> nums_of ?t ''Vartojimas'' ! j = Some x
                   \<and> (\<forall>k. j < k \<and> k \<le> i \<longrightarrow> nums_of ?t ''Vartojimas'' ! k = None)"
    then have "ffill_from None (nums_of ?t ''Vartojimas'') ! i = Some x"
      using 2 by (intro ffill_from_prior [of j]) auto
    then show "nums_of ?out ''Vartojimas'' ! i = Some x" using c by (simp add: ffill_def)
  qed
  from r 1 2 3 c show ?thesis by blast
qed



















lemma full_example_hyps:
  "\<not> df_empty full_example" "rect full_example"
  "is_nums full_example ''Kaupimo''" "is_nums full_example ''Saules''"
  "is_nums full_example ''Kitu''" "is_nums full_example ''Siluminiu''"
  "is_nums full_example ''Hidro''" "is_nums full_example ''Vejo''"
  "is_nums full_example ''Vartojimas''"
  by (simp_all add: full_example_def df_empty_def columns_def nrows_def rect_def is_nums_def)

lemma full_example_result:
  "process_data full_example =
     Inr [(''data'', Dates [Stamp (day 1), Stamp (day 2), Stamp (day 3)]),
          (''Kaupimo'', Nums [Some 0, Some 1, Some 0]),
          (''Saules'', Nums [Some 10, Some 0, Some 30]),
          (''Kitu'', Nums [Some 0, Some 0, Some 0]),
          (''Siluminiu'', Nums [Some 0, Some 0, Some 0]),
          (''Hidro'', Nums [Some 0, Some 0, Some 0]),
          (''Vejo'', Nums [Some 0, Some 0, Some 0]),
          (''Vartojimas'', Nums [None, Some 6, Some 6]),
          (''Sumine_Generacija'', Nums [Some 10, Some 1, Some 30]),
          (''Disbalansas'', Nums [None, Some (- 5), Some 24])]"
  by code_simp

theorem gap_fill_policies_witness:
  "\<not> df_empty full_example
   \<and> is_nums full_example ''Kaupimo'' \<and> is_nums full_example ''Saules''
   \<and> is_nums full_example ''Kitu'' \<and> is_nums full_example ''Siluminiu''
   \<and> is_nums full_example ''Hidro'' \<and> is_nums full_example ''Vejo''
   \<and> is_nums full_example ''Vartojimas''
   \<and> process_data full_example =
     Inr [(''data'', Dates [Stamp (day 1), Stamp (day 2), Stamp (day 3)]),
          (''Kaupimo'', Nums [Some 0, Some 1, Some 0]),
          (''Saules'', Nums [Some 10, Some 0, Some 30]),
          (''Kitu'', Nums [Some 0, Some 0, Some 0]),
          (''Siluminiu'', Nums [Some 0, Some 0, Some 0]),
          (''Hidro'', Nums [Some 0, Some 0, Some 0]),
          (''Vejo'', Nums [Some 0, Some 0, Some 0]),
          (''Vartojimas'', Nums [None, Some 6, Some 6]),
          (''Sumine_Generacija'', Nums [Some 10, Some 1, Some 30]),
          (''Disbalansas'', Nums [None, Some (- 5), Some 24])]"
proof -
  have src: "\<forall>k \<in> set sources. is_nums full_example k"
    using full_example_hyps by (simp add: sources_def)
  from gap_fill_policies [OF full_example_hyps(1) src full_example_hyps(9)]
  obtain out where "process_data full_example = Inr out" by blast
  with full_example_result full_example_hyps show ?thesis by simp
qed


text \<open>
  Claim C8, the end-to-end scenario, evaluated on the code. Only the series 102 (Saules,
  the solar source) and 203 (Vartojimas) have records. The merge gives the expected three
  rows, but the merged table has no column for the five other generation sources, and
  line 136 of \<open>process_data\<close> raises \<^verbatim>\<open>KeyError\<close>: there is no processed table.
\<close>

theorem scenario_two_series:
  "fetch_all_data scenario_net ''2024-01-01'' ''2024-07-01''
     = Inr [(''data'', Dates [Stamp (day 1), Stamp (day 2), Stamp (day 3)]),
            (''Saules'', Nums [Some 10, None, Some 30]),
            (''Vartojimas'', Nums [Some 5, Some 6, Some 7])]
   \<and> main scenario_net ''2024-01-01'' ''2024-07-01'' = Inl KeyError"
  by code_simp

text \<open>
  Claim C1, evaluated on the code. Every request for the series 106 (Vejo) fails, the six
  other series arrive. \<open>fetch_all_data\<close> skips the failed series and returns a table
  without its column; \<open>process_data\<close> then raises \<^verbatim>\<open>KeyError\<close> at line 136 instead of
  filling the missing series with zeros.
\<close>

theorem partial_result_raises:
  "fst (fetch_dataset partial_net ''gamyba'' ''106'' ''2024-01-01'' ''2024-07-01'') = Inr []
   \<and> fetch_all_data partial_net ''2024-01-01'' ''2024-07-01''
     = Inr [(''data'', Dates [Stamp (day 1)]),
            (''Kaupimo'', Nums [Some 5]), (''Saules'', Nums [Some 5]), (''Kitu'', Nums [Some 5]),
            (''Siluminiu'', Nums [Some 5]), (''Hidro'', Nums [Some 5]),
            (''Vartojimas'', Nums [Some 5])]
   \<and> main partial_net ''2024-01-01'' ''2024-07-01'' = Inl KeyError"
  by code_simp

lemma scenario_with_all_columns:
  "process_data
     [(''data'', Dates [Stamp (day 1), Stamp (day 2), Stamp (day 3)]),
      (''Kaupimo'', Nums [None, None, None]),
      (''Saules'', Nums [Some 10, None, Some 30]),
      (''Kitu'', Nums [None, None, None]),
      (''Siluminiu'', Nums [None, None, None]),
      (''Hidro'', Nums [None, None, None]),
      (''Vejo'', Nums [None, None, None]),
      (''Vartojimas'', Nums [Some 5, Some 6, Some 7])]
   = Inr [(''data'', Dates [Stamp (day 1), Stamp (day 2), Stamp (day 3)]),
          (''Kaupimo'', Nums [Some 0, Some 0, Some 0]),
          (''Saules'', Nums [Some 10, Some 0, Some 30]),
          (''Kitu'', Nums [Some 0, Some 0, Some 0]),
          (''Siluminiu'', Nums [Some 0, Some 0, Some 0]),
          (''Hidro'', Nums [Some 0, Some 0, Some 0]),
          (''Vejo'', Nums [Some 0, Some 0, Some 0]),
          (''Vartojimas'', Nums [Some 5, Some 6, Some 7]),
          (''Sumine_Generacija'', Nums [Some 10, Some 0, Some 30]),
          (''Disbalansas'', Nums [Some 5, Some (- 6), Some 23])]"
  by code_simp


end
